theory Spec2Isabelle
  imports Main "HOL-Library.Log_Nat" "HOL-Library.Sublist"
begin

chapter \<open>The embedding\<close>

section \<open>JavaScript numbers\<close>

text \<open>
  A JavaScript number is an IEEE 754 binary64 value: \<open>NaN\<close>, one of the two
  infinities, or a finite value, kept here as the exact rational it denotes. The two
  zeros are one value, as \<open>===\<close> has them. Every arithmetic operation returns the
  exact result rounded to the nearest representable value, ties to the even significand.
\<close>

datatype jsnum = NaN | PosInf | NegInf | Fin rat

text \<open>\<open>ilog2 q\<close> is the binary exponent of a non-zero \<open>q\<close>: the floor of \<open>log\<^sub>2 \<bar>q\<bar>\<close>.\<close>

definition ilog2 :: "rat \<Rightarrow> int" where
  "ilog2 q = (let (a, b) = quotient_of \<bar>q\<bar>; d = bitlen a - bitlen b
              in if 2 powi d \<le> \<bar>q\<bar> then d else d - 1)"

definition round_half_even :: "rat \<Rightarrow> int" where
  "round_half_even x =
     (let f = \<lfloor>x\<rfloor>; d = x - of_int f
      in if d < 1 / 2 then f else if 1 / 2 < d then f + 1 else if even f then f else f + 1)"

text \<open>
  Rounding to binary64: the significand has 53 bits, so the unit in the last place of
  \<open>q\<close> is \<open>2\<close> to the power \<open>ilog2 q - 52\<close>, and never below \<open>2\<close> to the \<open>-1074\<close>
  (the subnormal range). A result whose binary exponent after rounding is \<open>1024\<close>
  or more overflows to an infinity.
\<close>

definition rnd :: "rat \<Rightarrow> jsnum" where
  "rnd q =
     (if q = 0 then Fin 0
      else
        let e = max (ilog2 q - 52) (- 1074);
            r = of_int (round_half_even (q / 2 powi e)) * 2 powi e
        in if r \<noteq> 0 \<and> 1024 \<le> ilog2 r then (if 0 < q then PosInf else NegInf)
           else Fin r)"

text \<open>The operators \<open>+\<close> and \<open>*\<close> on numbers.\<close>

fun fadd :: "jsnum \<Rightarrow> jsnum \<Rightarrow> jsnum" where
  "fadd (Fin a) (Fin b) = rnd (a + b)"
| "fadd NaN y = NaN"
| "fadd x NaN = NaN"
| "fadd PosInf NegInf = NaN"
| "fadd NegInf PosInf = NaN"
| "fadd PosInf y = PosInf"
| "fadd NegInf y = NegInf"
| "fadd (Fin a) y = y"

fun fmul :: "jsnum \<Rightarrow> jsnum \<Rightarrow> jsnum" where
  "fmul (Fin a) (Fin b) = rnd (a * b)"
| "fmul NaN y = NaN"
| "fmul x NaN = NaN"
| "fmul PosInf PosInf = PosInf"
| "fmul PosInf NegInf = NegInf"
| "fmul NegInf PosInf = NegInf"
| "fmul NegInf NegInf = PosInf"
| "fmul (Fin a) PosInf = (if a = 0 then NaN else if 0 < a then PosInf else NegInf)"
| "fmul (Fin a) NegInf = (if a = 0 then NaN else if 0 < a then NegInf else PosInf)"
| "fmul PosInf (Fin b) = (if b = 0 then NaN else if 0 < b then PosInf else NegInf)"
| "fmul NegInf (Fin b) = (if b = 0 then NaN else if 0 < b then NegInf else PosInf)"

text \<open>
  The finite values binary64 represents exactly: an integer significand below \<open>2\<close> to
  the \<open>53\<close> in magnitude, scaled by a power of two between \<open>-1074\<close> and \<open>971\<close>.
\<close>

definition is_double :: "rat \<Rightarrow> bool" where
  "is_double q \<longleftrightarrow>
     (\<exists>m k. q = of_int m * 2 powi k \<and> \<bar>m\<bar> < 2 ^ 53 \<and> - 1074 \<le> k \<and> k \<le> 971)"

section \<open>JavaScript values of the front end\<close>

text \<open>
  The front end stores form fields and server data as plain JavaScript values. The
  conditions of the source (\<open>!formData.vendor\<close>, \<open>if (!user)\<close>) test truthiness, so the
  model keeps the primitive values and their truthiness: \<open>undefined\<close>, \<open>null\<close>,
  \<open>false\<close>, \<open>0\<close>, \<open>NaN\<close> and the empty string are falsy, everything else is
  truthy.
\<close>

datatype jsval = JUndefined | JNull | JBool bool | JNum jsnum | JStr string

fun truthy :: "jsval \<Rightarrow> bool" where
  "truthy JUndefined = False"
| "truthy JNull = False"
| "truthy (JBool b) = b"
| "truthy (JNum n) = (n \<noteq> Fin 0 \<and> n \<noteq> NaN)"
| "truthy (JStr s) = (s \<noteq> [])"

section \<open>AuthProvider.jsx: hasRole and hasPermission\<close>

text \<open>
  The profile the server returns: a user with an optional array of roles, each role with
  a name and an optional array of permissions, each permission with a codename. An absent
  property (\<open>undefined\<close>, what \<open>?.\<close> and \<open>|| []\<close> guard against) is \<open>None\<close>. The state
  variable \<open>user\<close> of the provider is \<open>null\<close> (\<open>None\<close>) until a profile is loaded.
\<close>

record permission =
  codename :: string

record role =
  name :: string
  permissions :: "permission list option"

record user =
  roles :: "role list option"

text \<open>\<open>array?.some(p)\<close>: \<open>undefined\<close> (falsy) when the array is absent.\<close>

definition opt_some :: "('a \<Rightarrow> bool) \<Rightarrow> 'a list option \<Rightarrow> bool" where
  "opt_some p arr = (case arr of None \<Rightarrow> False | Some xs \<Rightarrow> list_ex p xs)"

text \<open>\<open>return user?.roles?.some(role => role.name === roleName) || false;\<close>\<close>

definition hasRole :: "user option \<Rightarrow> string \<Rightarrow> bool" where
  "hasRole usr roleName =
     (case usr of
        None \<Rightarrow> False
      | Some u \<Rightarrow> opt_some (\<lambda>role. name role = roleName) (roles u) \<or> False)"

text \<open>
  The loop \<open>for (const role of user.roles || [])\<close> of hasPermission, returning \<open>true\<close> at
  the first role one of whose permissions has the codename, \<open>false\<close> after the last.
\<close>

fun hasPermission_loop :: "role list \<Rightarrow> string \<Rightarrow> bool" where
  "hasPermission_loop [] permission = False"
| "hasPermission_loop (role # rest) permission =
     (if opt_some (\<lambda>perm. codename perm = permission) (permissions role) then True
      else hasPermission_loop rest permission)"

definition hasPermission :: "user option \<Rightarrow> string \<Rightarrow> bool" where
  "hasPermission usr permission =
     (case usr of
        None \<Rightarrow> False
      | Some u \<Rightarrow>
          hasPermission_loop (case roles u of None \<Rightarrow> [] | Some rs \<Rightarrow> rs) permission)"

text \<open>The roles of a loaded user and the permissions of a role, absent arrays read as empty.\<close>

definition roles_of :: "user \<Rightarrow> role list" where
  "roles_of u = (case roles u of None \<Rightarrow> [] | Some rs \<Rightarrow> rs)"

definition permissions_of :: "role \<Rightarrow> permission list" where
  "permissions_of r = (case permissions r of None \<Rightarrow> [] | Some ps \<Rightarrow> ps)"

section \<open>POForm: the state of the purchase-order form\<close>

text \<open>
  A line item of the form. \<open>handleSaveItem\<close> stores \<open>quantity_ordered\<close> and
  \<open>unit_price\<close> as JavaScript numbers (the results of \<open>parseFloat\<close>), and
  \<open>*\<close> converts an item loaded from the server to numbers before it multiplies; the
  other properties are the strings of the dialog.
\<close>

record line_item =
  item_code :: string
  item_description :: string
  quantity_ordered :: jsnum
  unit_price :: jsnum

text \<open>The fields of \<open>formData\<close> that \<open>handleFormSubmit\<close> validates.\<close>

record form_data =
  vendor :: jsval
  order_date :: jsval
  priority :: jsval

text \<open>
  What the component's environment gives a submission: the route parameter \<open>id\<close>
  (\<open>isEditing = Boolean(id)\<close>) and the answer of the server to the request. A failed
  request carries \<open>error.response?.data\<close> when the server answered: an object whose
  values are lists of messages.
\<close>

datatype api_result = ApiOk | ApiFailed "(string \<times> string list) list option"

datatype request =
    Put string form_data "line_item list"
  | Post form_data "line_item list"

record po_form =
  formData :: form_data
  lineItems :: "line_item list"
  error :: string
  formErrors :: "(string \<times> string) list"
  saving :: bool
  requests :: "request list"
  location :: string

text \<open>\<open>Array.prototype.join\<close> with a separator.\<close>

fun join :: "string \<Rightarrow> string list \<Rightarrow> string" where
  "join sep [] = []"
| "join sep [x] = x"
| "join sep (x # y # ys) = x @ sep @ join sep (y # ys)"

text \<open>
  The object \<open>errors\<close> of \<open>handleFormSubmit\<close>, as the list of its properties in the
  order the three \<open>if\<close> statements add them.
\<close>

definition validation_errors :: "form_data \<Rightarrow> (string \<times> string) list" where
  "validation_errors fd =
     (if \<not> truthy (vendor fd) then [(''vendor'', ''Vendor is required'')] else [])
     @ (if \<not> truthy (order_date fd) then [(''order_date'', ''Order date is required'')] else [])
     @ (if \<not> truthy (priority fd) then [(''priority'', ''Priority is required'')] else [])"

text \<open>
  \<open>handleFormSubmit\<close>. The state setters become updates of the record; the request
  the function awaits is appended to \<open>requests\<close>, and \<open>navigate\<close> sets \<open>location\<close>.
  The order of the source is kept: the check of the line items returns before the field
  errors are shown, both return before \<open>setSaving(true)\<close>, and the \<open>finally\<close> block
  resets \<open>saving\<close> on either outcome of the request. The request is a \<open>PUT\<close>
  when \<open>isEditing = Boolean(id)\<close> holds, that is when the route has a non-empty \<open>id\<close>.
\<close>

definition handleFormSubmit ::
  "string option \<Rightarrow> api_result \<Rightarrow> po_form \<Rightarrow> po_form" where
  "handleFormSubmit id_param api s =
     (let errors = validation_errors (formData s) in
      if length (lineItems s) = 0 then s\<lparr>error := ''Please add at least one line item''\<rparr>
      else if length errors > 0 then s\<lparr>formErrors := errors\<rparr>
      else
        let s1 = s\<lparr>saving := True, error := [], formErrors := []\<rparr>;
            req = (case id_param of
                     Some i \<Rightarrow>
                       if i \<noteq> [] then Put i (formData s) (lineItems s)
                       else Post (formData s) (lineItems s)
                   | None \<Rightarrow> Post (formData s) (lineItems s));
            s2 = s1\<lparr>requests := requests s1 @ [req]\<rparr>;
            s3 = (case api of
                    ApiOk \<Rightarrow> s2\<lparr>location := ''/purchase-orders''\<rparr>
                  | ApiFailed (Some data) \<Rightarrow> s2\<lparr>error := join '', '' (concat (map snd data))\<rparr>
                  | ApiFailed None \<Rightarrow> s2\<lparr>error := ''Failed to save purchase order''\<rparr>)
        in s3\<lparr>saving := False\<rparr>)"

text \<open>
  \<open>calculateTotal\<close>: \<open>lineItems.reduce((total, item) => total + (item.quantity_ordered
  * item.unit_price), 0)\<close>, a left fold from \<open>0\<close>.
\<close>

definition subtotal :: "line_item \<Rightarrow> jsnum" where
  "subtotal item = fmul (quantity_ordered item) (unit_price item)"

definition calculateTotal :: "line_item list \<Rightarrow> jsnum" where
  "calculateTotal items =
     foldl (\<lambda>total item. fadd total (fmul (quantity_ordered item) (unit_price item)))
       (Fin 0) items"

text \<open>
  The exact value of a finite number, and the exact (rational) sum of quantity times unit
  price over a list of items, against which the computed total is compared.
\<close>

fun finite_value :: "jsnum \<Rightarrow> rat option" where
  "finite_value (Fin q) = Some q"
| "finite_value x = None"

fun is_finite :: "jsnum \<Rightarrow> bool" where
  "is_finite (Fin q) = True"
| "is_finite x = False"

definition exact_subtotal :: "line_item \<Rightarrow> rat" where
  "exact_subtotal item =
     (case (finite_value (quantity_ordered item), finite_value (unit_price item)) of
        (Some q, Some p) \<Rightarrow> q * p
      | _ \<Rightarrow> 0)"

definition exact_total :: "line_item list \<Rightarrow> rat" where
  "exact_total items = sum_list (map exact_subtotal items)"

definition finite_item :: "line_item \<Rightarrow> bool" where
  "finite_item item \<longleftrightarrow> is_finite (quantity_ordered item) \<and> is_finite (unit_price item)"

chapter \<open>The order-fulfilment core\<close>

text \<open>
  The services of the order-fulfilment module (the workflow validator, the order,
  allocation, picking, packing and shipping services and the inventory adapters) are
  described by the repository's documents but their code is not among the source files.
  The definitions of this chapter are therefore modelled from the specification, each
  one from the sentences it quotes. Decimal quantities, prices and weights are exact
  rationals: decimal addition, multiplication and comparison are exact on them.
\<close>

type_synonym decimal = rat

section \<open>Workflow\<close>

text \<open>
  Modelled from the spec: the order statuses of section 4.1 and the error taxonomy of
  section 7. An \<open>InsufficientInventoryError\<close> carries "per-item shortfall detail".
\<close>

datatype order_status =
  CREATED | APPROVED | ALLOCATED | PICKING | PACKING | SHIPPED | DELIVERED | CANCELLED

datatype shortfall = Shortfall (sf_item: nat) (sf_sku: string) (sf_requested: decimal)
  (sf_available: decimal)

datatype error =
    ValidationError
  | InvalidTransitionError
  | InsufficientInventoryError "shortfall list"
  | PackageOverweightError
  | AdapterError

text \<open>
  Modelled from the spec: the adjacency table of \<open>Workflow\<close>, which the source files
  do not contain. "States: CREATED, APPROVED, ALLOCATED, PICKING, PACKING, SHIPPED,
  DELIVERED [in this order], with CANCELLED reachable from every non-terminal state.
  DELIVERED and CANCELLED are terminal."
\<close>

definition transition_table :: "(order_status \<times> order_status list) list" where
  "transition_table =
     [(CREATED, [APPROVED, CANCELLED]),
      (APPROVED, [ALLOCATED, CANCELLED]),
      (ALLOCATED, [PICKING, CANCELLED]),
      (PICKING, [PACKING, CANCELLED]),
      (PACKING, [SHIPPED, CANCELLED]),
      (SHIPPED, [DELIVERED, CANCELLED]),
      (DELIVERED, []),
      (CANCELLED, [])]"

text \<open>
  Modelled from the spec: \<open>Workflow.can_transition\<close> and
  \<open>Workflow.validate_transition\<close>. "\<open>can_transition(current, requested) -> bool\<close> is
  a pure function over a fixed adjacency table"; "\<open>validate_transition\<close> fails with
  \<open>InvalidTransitionError\<close> if the edge does not exist."
\<close>

definition can_transition :: "order_status \<Rightarrow> order_status \<Rightarrow> bool" where
  "can_transition current requested =
     (case map_of transition_table current of
        None \<Rightarrow> False
      | Some targets \<Rightarrow> requested \<in> set targets)"

definition validate_transition :: "order_status \<Rightarrow> order_status \<Rightarrow> error + unit" where
  "validate_transition current requested =
     (if can_transition current requested then Inr () else Inl InvalidTransitionError)"

definition terminal :: "order_status \<Rightarrow> bool" where
  "terminal s \<longleftrightarrow> s = DELIVERED \<or> s = CANCELLED"

text \<open>
  Modelled from the spec: the position of a status in the lifecycle of section 4.1, with
  the sink \<open>CANCELLED\<close> last.
\<close>

fun stage :: "order_status \<Rightarrow> nat" where
  "stage CREATED = 0"
| "stage APPROVED = 1"
| "stage ALLOCATED = 2"
| "stage PICKING = 3"
| "stage PACKING = 4"
| "stage SHIPPED = 5"
| "stage DELIVERED = 6"
| "stage CANCELLED = 7"

section \<open>Data model\<close>

text \<open>
  Modelled from the spec: the entities of section 3, which the source files do not
  contain. An order owns "an ordered collection of OrderItem", so an order item is
  referred to by its position in that collection. All the entities that belong to one
  order's lifecycle are kept together in one aggregate (\<open>fulfillment\<close>): "every
  multi-entity mutation executes inside a single atomic transaction scoped to one
  Order's aggregate". Tasks, packages and shipments are referred to by their position
  in the aggregate. Actor and timestamp of an audit entry are left out: no operation
  takes a clock or an actor.
\<close>

datatype allocation_status = ACTIVE | RELEASED

datatype task_status = PENDING | IN_PROGRESS | COMPLETED | TASK_CANCELLED

datatype package_status = OPEN | FINALIZED

datatype shipment_status =
  SHIPMENT_CREATED | LABEL_GENERATED | IN_TRANSIT | SHIPMENT_DELIVERED | EXCEPTION

record order_item =
  oi_sku :: string
  oi_quantity :: decimal
  oi_unit_price :: decimal
  oi_unit_weight :: decimal

record allocation =
  al_item :: nat
  al_location :: string
  al_quantity :: decimal
  al_reservation_id :: string
  al_status :: allocation_status

record picking_item =
  pi_item :: nat
  pi_expected :: decimal
  pi_picked :: "decimal option"

record picking_task =
  pt_picker :: "string option"
  pt_status :: task_status
  pt_items :: "picking_item list"

record package_item =
  pki_item :: nat
  pki_quantity :: decimal

record package =
  pkg_length :: decimal
  pkg_width :: decimal
  pkg_height :: decimal
  pkg_empty_weight :: decimal
  pkg_max_weight :: decimal
  pkg_status :: package_status
  pkg_items :: "package_item list"

record packing_task =
  pa_status :: task_status
  pa_packages :: "package list"

record shipment =
  sh_carrier :: string
  sh_tracking_number :: "string option"
  sh_ship_from :: string
  sh_ship_to :: string
  sh_status :: shipment_status
  sh_items :: "(nat \<times> nat) list"

record audit_entry =
  au_entity :: string
  au_action :: string
  au_detail :: string

record fulfillment =
  order_id :: nat
  warehouse_id :: nat
  order_priority :: string
  status :: order_status
  total_amount :: decimal
  order_items :: "order_item list"
  allocations :: "allocation list"
  picking_tasks :: "picking_task list"
  packing_tasks :: "packing_task list"
  shipments :: "shipment list"
  audit_log :: "audit_entry list"

text \<open>
  Modelled from the spec: the \<open>InventoryAdapter\<close> capability of section 6, over an
  adapter state \<open>'s\<close> that every call may change. \<open>reserve\<close> "fails with
  \<open>AdapterError\<close> on transport/logic failure": \<open>None\<close>. \<open>release\<close> answers a boolean;
  \<open>False\<close> also stands for a release that failed.
\<close>

record 's inventory_adapter =
  check_availability :: "'s \<Rightarrow> string \<Rightarrow> decimal \<Rightarrow> nat \<Rightarrow> (string \<times> decimal) list"
  reserve :: "'s \<Rightarrow> string \<Rightarrow> decimal \<Rightarrow> string \<Rightarrow> nat \<Rightarrow> (string \<times> 's) option"
  release :: "'s \<Rightarrow> string \<Rightarrow> bool \<times> 's"

text \<open>
  Modelled from the spec: the persistence store, as the aggregates by order id, and the
  state of the inventory system behind the adapter.
\<close>

record 's store =
  orders :: "nat \<rightharpoonup> fulfillment"
  next_order_id :: nat
  inventory :: 's

subsection \<open>The quantities the invariants relate\<close>

text \<open>
  Modelled from the spec: the sums of section 8, which the source files do not contain.
  Per order item \<open>i\<close>: the quantity on ACTIVE allocations, the quantity on all
  allocation rows, the quantity expected by and recorded on picking items, and the
  quantity packed across all packages.
\<close>

definition active_quantity :: "fulfillment \<Rightarrow> nat \<Rightarrow> decimal" where
  "active_quantity f i =
     sum_list (map al_quantity
       (filter (\<lambda>a. al_item a = i \<and> al_status a = ACTIVE) (allocations f)))"

definition allocated_quantity :: "fulfillment \<Rightarrow> nat \<Rightarrow> decimal" where
  "allocated_quantity f i =
     sum_list (map al_quantity (filter (\<lambda>a. al_item a = i) (allocations f)))"

definition picked_value :: "picking_item \<Rightarrow> decimal" where
  "picked_value p = (case pi_picked p of None \<Rightarrow> 0 | Some q \<Rightarrow> q)"

definition task_picked :: "nat \<Rightarrow> picking_task \<Rightarrow> decimal" where
  "task_picked i t = sum_list (map picked_value (filter (\<lambda>p. pi_item p = i) (pt_items t)))"

definition task_expected :: "nat \<Rightarrow> picking_task \<Rightarrow> decimal" where
  "task_expected i t = sum_list (map pi_expected (filter (\<lambda>p. pi_item p = i) (pt_items t)))"

definition picked_quantity :: "fulfillment \<Rightarrow> nat \<Rightarrow> decimal" where
  "picked_quantity f i = sum_list (map (task_picked i) (picking_tasks f))"

definition expected_quantity :: "fulfillment \<Rightarrow> nat \<Rightarrow> decimal" where
  "expected_quantity f i = sum_list (map (task_expected i) (picking_tasks f))"

definition package_packed :: "nat \<Rightarrow> package \<Rightarrow> decimal" where
  "package_packed i p = sum_list (map pki_quantity (filter (\<lambda>x. pki_item x = i) (pkg_items p)))"

definition task_packed :: "nat \<Rightarrow> packing_task \<Rightarrow> decimal" where
  "task_packed i t = sum_list (map (package_packed i) (pa_packages t))"

definition packed_quantity :: "fulfillment \<Rightarrow> nat \<Rightarrow> decimal" where
  "packed_quantity f i = sum_list (map (task_packed i) (packing_tasks f))"

definition audit :: "string \<Rightarrow> string \<Rightarrow> string \<Rightarrow> fulfillment \<Rightarrow> fulfillment" where
  "audit entity action detail f =
     f\<lparr>audit_log := audit_log f @
          [\<lparr>au_entity = entity, au_action = action, au_detail = detail\<rparr>]\<rparr>"

section \<open>OrderService: creation and approval\<close>

text \<open>
  Modelled from the spec: \<open>OrderService.create_order\<close>, which the source files do not
  contain. "\<open>create_order(warehouse_id, priority, items[])\<close>: validates each item's
  sku/quantity/unit_price are present and quantity > 0; computes total; persists Order +
  OrderItems in status CREATED. Fails with \<open>ValidationError\<close> on malformed input." A
  submitted item may lack any of the three validated fields (\<open>None\<close>).
\<close>

record item_input =
  in_sku :: "string option"
  in_quantity :: "decimal option"
  in_unit_price :: "decimal option"
  in_unit_weight :: decimal

definition make_item :: "item_input \<Rightarrow> error + order_item" where
  "make_item x =
     (case (in_sku x, in_quantity x, in_unit_price x) of
        (Some s, Some q, Some p) \<Rightarrow>
          if 0 < q
          then Inr \<lparr>oi_sku = s, oi_quantity = q, oi_unit_price = p,
                    oi_unit_weight = in_unit_weight x\<rparr>
          else Inl ValidationError
      | _ \<Rightarrow> Inl ValidationError)"

fun make_items :: "item_input list \<Rightarrow> error + order_item list" where
  "make_items [] = Inr []"
| "make_items (x # xs) =
     (case make_item x of
        Inl e \<Rightarrow> Inl e
      | Inr it \<Rightarrow> (case make_items xs of Inl e \<Rightarrow> Inl e | Inr its \<Rightarrow> Inr (it # its)))"

definition item_subtotal :: "order_item \<Rightarrow> decimal" where
  "item_subtotal it = oi_quantity it * oi_unit_price it"

definition new_order :: "nat \<Rightarrow> nat \<Rightarrow> string \<Rightarrow> order_item list \<Rightarrow> fulfillment" where
  "new_order oid wh prio its =
     \<lparr>order_id = oid, warehouse_id = wh, order_priority = prio, status = CREATED,
      total_amount = sum_list (map item_subtotal its), order_items = its,
      allocations = [], picking_tasks = [], packing_tasks = [], shipments = [],
      audit_log = [\<lparr>au_entity = ''order'', au_action = ''create'', au_detail = []\<rparr>]\<rparr>"

definition create_order ::
  "nat \<Rightarrow> string \<Rightarrow> item_input list \<Rightarrow> 's store \<Rightarrow> (error + nat) \<times> 's store" where
  "create_order wh prio inputs st =
     (case make_items inputs of
        Inl e \<Rightarrow> (Inl e, st)
      | Inr its \<Rightarrow>
          (Inr (next_order_id st),
           st\<lparr>orders := (orders st)(next_order_id st \<mapsto> new_order (next_order_id st) wh prio its),
              next_order_id := Suc (next_order_id st)\<rparr>))"

text \<open>
  Modelled from the spec: the well-formed items, "each item's sku/quantity/unit_price are
  present and quantity > 0".
\<close>

definition well_formed_item :: "item_input \<Rightarrow> bool" where
  "well_formed_item x \<longleftrightarrow>
     in_sku x \<noteq> None \<and> in_unit_price x \<noteq> None
     \<and> (case in_quantity x of None \<Rightarrow> False | Some q \<Rightarrow> 0 < q)"

text \<open>
  Modelled from the spec: the status changes of \<open>OrderService\<close>. A change of status is
  validated by the workflow and written to the audit log. "\<open>approve(order_id)\<close>: requires
  status CREATED; transitions to APPROVED; writes audit entry."
\<close>

definition advance :: "order_status \<Rightarrow> string \<Rightarrow> fulfillment \<Rightarrow> error + fulfillment" where
  "advance target action f =
     (case validate_transition (status f) target of
        Inl e \<Rightarrow> Inl e
      | Inr u \<Rightarrow> Inr (audit ''order'' action [] (f\<lparr>status := target\<rparr>)))"

definition approve :: "fulfillment \<Rightarrow> error + fulfillment" where
  "approve f = advance APPROVED ''approve'' f"

section \<open>AllocationService\<close>

text \<open>
  Modelled from the spec: \<open>AllocationService.allocate_order\<close>, which the source files
  do not contain. "For each OrderItem, calls \<open>check_availability(sku, qty,
  warehouse_id)\<close>; if aggregate available quantity across returned locations is
  insufficient, fails with \<open>InsufficientInventoryError\<close> identifying the short item(s) and
  allocates nothing for the whole order. Otherwise reserves quantities
  location-by-location (best-fit: prefer the single location that can satisfy the whole
  item quantity; otherwise split across multiple locations in descending
  available-quantity order) via \<open>reserve(sku, qty, location, reference=order_id)\<close>,
  creating one Allocation row per (item, location) reservation."
\<close>

definition aggregate_available :: "(string \<times> decimal) list \<Rightarrow> decimal" where
  "aggregate_available locs = sum_list (map snd locs)"

definition availability :: "'s inventory_adapter \<Rightarrow> 's \<Rightarrow> fulfillment \<Rightarrow> nat \<Rightarrow> (string \<times> decimal) list" where
  "availability ad iv f i =
     check_availability ad iv (oi_sku (order_items f ! i)) (oi_quantity (order_items f ! i))
       (warehouse_id f)"

definition short :: "'s inventory_adapter \<Rightarrow> 's \<Rightarrow> fulfillment \<Rightarrow> nat \<Rightarrow> bool" where
  "short ad iv f i \<longleftrightarrow>
     aggregate_available (availability ad iv f i) < oi_quantity (order_items f ! i)"

definition shortfalls :: "'s inventory_adapter \<Rightarrow> 's \<Rightarrow> fulfillment \<Rightarrow> shortfall list" where
  "shortfalls ad iv f =
     map (\<lambda>i. Shortfall i (oi_sku (order_items f ! i)) (oi_quantity (order_items f ! i))
                 (aggregate_available (availability ad iv f i)))
       (filter (short ad iv f) [0..<length (order_items f)])"

text \<open>
  Modelled from the spec: the split "across multiple locations", taking from the
  locations in the order given until nothing remains to reserve.
\<close>

fun split_across :: "decimal \<Rightarrow> (string \<times> decimal) list \<Rightarrow> (string \<times> decimal) list" where
  "split_across remaining [] = []"
| "split_across remaining ((loc, avail) # rest) =
     (if remaining \<le> 0 then []
      else (loc, min avail remaining) # split_across (remaining - min avail remaining) rest)"

definition best_fit :: "decimal \<Rightarrow> (string \<times> decimal) list \<Rightarrow> (string \<times> decimal) list" where
  "best_fit qty locs =
     (case find (\<lambda>(loc, avail). qty \<le> avail) locs of
        Some (loc, avail) \<Rightarrow> [(loc, qty)]
      | None \<Rightarrow> split_across qty (sort_key (\<lambda>(loc, avail). - avail) locs))"

datatype reservation_request =
  Request (rq_item: nat) (rq_sku: string) (rq_location: string) (rq_quantity: decimal)

definition item_requests :: "'s inventory_adapter \<Rightarrow> 's \<Rightarrow> fulfillment \<Rightarrow> nat \<Rightarrow> reservation_request list" where
  "item_requests ad iv f i =
     map (\<lambda>(loc, q). Request i (oi_sku (order_items f ! i)) loc q)
       (best_fit (oi_quantity (order_items f ! i)) (availability ad iv f i))"

definition reservation_plan :: "'s inventory_adapter \<Rightarrow> 's \<Rightarrow> fulfillment \<Rightarrow> reservation_request list" where
  "reservation_plan ad iv f = concat (map (item_requests ad iv f) [0..<length (order_items f)])"

text \<open>
  Modelled from the spec: the calls of \<open>reserve\<close>, one per request, in order, each on the adapter state the
  previous one left. The first failure ends the calls: the rows are dropped (the local
  transaction is rolled back), the adapter keeps what it did.
\<close>

fun reserve_all ::
  "'s inventory_adapter \<Rightarrow> 's \<Rightarrow> nat \<Rightarrow> reservation_request list \<Rightarrow> allocation list option \<times> 's" where
  "reserve_all ad iv ref [] = (Some [], iv)"
| "reserve_all ad iv ref (r # rs) =
     (case reserve ad iv (rq_sku r) (rq_quantity r) (rq_location r) ref of
        None \<Rightarrow> (None, iv)
      | Some (rid, iv1) \<Rightarrow>
          (case reserve_all ad iv1 ref rs of
             (None, iv2) \<Rightarrow> (None, iv2)
           | (Some rows, iv2) \<Rightarrow>
               (Some (\<lparr>al_item = rq_item r, al_location = rq_location r,
                        al_quantity = rq_quantity r, al_reservation_id = rid,
                        al_status = ACTIVE\<rparr> # rows), iv2)))"


definition allocate_order ::
  "'s inventory_adapter \<Rightarrow> 's \<Rightarrow> fulfillment \<Rightarrow> (error + fulfillment) \<times> 's" where
  "allocate_order ad iv f =
     (if shortfalls ad iv f \<noteq> [] then (Inl (InsufficientInventoryError (shortfalls ad iv f)), iv)
      else
        (case reserve_all ad iv (order_id f) (reservation_plan ad iv f) of
           (None, iv1) \<Rightarrow> (Inl AdapterError, iv1)
         | (Some rows, iv1) \<Rightarrow> (Inr (f\<lparr>allocations := allocations f @ rows\<rparr>), iv1)))"

text \<open>
  Modelled from the spec: \<open>AllocationService.release_order\<close>. "For every ACTIVE
  Allocation tied to the order, calls \<open>release(reservation_id)\<close>; marks Allocation RELEASED
  regardless of adapter outcome (adapter failure is logged, not fatal)."
\<close>

fun release_calls :: "'s inventory_adapter \<Rightarrow> 's \<Rightarrow> string list \<Rightarrow> string list \<times> 's" where
  "release_calls ad iv [] = ([], iv)"
| "release_calls ad iv (rid # rids) =
     (case release ad iv rid of
        (ok, iv1) \<Rightarrow>
          (case release_calls ad iv1 rids of
             (failed, iv2) \<Rightarrow> (if ok then failed else rid # failed, iv2)))"

definition mark_released :: "allocation \<Rightarrow> allocation" where
  "mark_released a = a\<lparr>al_status := RELEASED\<rparr>"

definition release_order :: "'s inventory_adapter \<Rightarrow> 's \<Rightarrow> fulfillment \<Rightarrow> fulfillment \<times> 's" where
  "release_order ad iv f =
     (case release_calls ad iv
             (map al_reservation_id (filter (\<lambda>a. al_status a = ACTIVE) (allocations f))) of
        (failed, iv1) \<Rightarrow>
          (f\<lparr>allocations := map mark_released (allocations f),
             audit_log := audit_log f @
               map (\<lambda>rid. \<lparr>au_entity = ''allocation'', au_action = ''release_failed'',
                             au_detail = rid\<rparr>) failed\<rparr>,
           iv1))"

section \<open>OrderService: allocation and cancellation\<close>

text \<open>
  Modelled from the spec: \<open>OrderService.allocate\<close>. It "requires the Order to be in the
  specific predecessor status (ALLOCATED requires APPROVED), delegates to the matching
  service, and on success advances the Workflow state", as one atomic unit.
\<close>

definition allocate :: "'s inventory_adapter \<Rightarrow> 's \<Rightarrow> fulfillment \<Rightarrow> (error + fulfillment) \<times> 's" where
  "allocate ad iv f =
     (case validate_transition (status f) ALLOCATED of
        Inl e \<Rightarrow> (Inl e, iv)
      | Inr u \<Rightarrow>
          (case allocate_order ad iv f of
             (Inl e, iv1) \<Rightarrow> (Inl e, iv1)
           | (Inr f1, iv1) \<Rightarrow> (advance ALLOCATED ''allocate'' f1, iv1)))"

text \<open>
  Modelled from the spec: \<open>OrderService.cancel\<close>. "\<open>cancel(order_id, reason)\<close>: requires
  non-terminal status; releases all ACTIVE allocations for the order via AllocationService
  before marking CANCELLED; always succeeds even if no allocations exist; idempotent if
  already CANCELLED (returns success, no duplicate audit entry)." With the release, the
  tasks still open are marked cancelled (section 9: "release allocations, mark tasks
  CANCELLED").
\<close>

definition cancel_picking_task :: "picking_task \<Rightarrow> picking_task" where
  "cancel_picking_task t =
     (if pt_status t = PENDING \<or> pt_status t = IN_PROGRESS then t\<lparr>pt_status := TASK_CANCELLED\<rparr>
      else t)"

definition cancel_packing_task :: "packing_task \<Rightarrow> packing_task" where
  "cancel_packing_task t =
     (if pa_status t = PENDING \<or> pa_status t = IN_PROGRESS then t\<lparr>pa_status := TASK_CANCELLED\<rparr>
      else t)"

definition cancel :: "'s inventory_adapter \<Rightarrow> 's \<Rightarrow> string \<Rightarrow> fulfillment \<Rightarrow> (error + fulfillment) \<times> 's" where
  "cancel ad iv reason f =
     (if status f = CANCELLED then (Inr f, iv)
      else
        (case validate_transition (status f) CANCELLED of
           Inl e \<Rightarrow> (Inl e, iv)
         | Inr u \<Rightarrow>
             (case release_order ad iv f of
                (f1, iv1) \<Rightarrow>
                  (Inr (audit ''order'' ''cancel'' reason
                          (f1\<lparr>status := CANCELLED,
                              picking_tasks := map cancel_picking_task (picking_tasks f1),
                              packing_tasks := map cancel_packing_task (packing_tasks f1)\<rparr>)),
                   iv1))))"

section \<open>PickingService\<close>

text \<open>
  Modelled from the spec: \<open>PickingService.generate_tasks\<close>, which the source files do
  not contain. "\<open>generate_tasks(order)\<close>: requires allocations to exist; creates one
  PickingTask with one PickingItem per allocated OrderItem, quantity expected =
  allocated quantity." An order item is allocated when an ACTIVE allocation refers to it.
\<close>

definition is_allocated :: "fulfillment \<Rightarrow> nat \<Rightarrow> bool" where
  "is_allocated f i \<longleftrightarrow> list_ex (\<lambda>a. al_item a = i \<and> al_status a = ACTIVE) (allocations f)"

definition generate_tasks :: "fulfillment \<Rightarrow> error + fulfillment" where
  "generate_tasks f =
     (if filter (is_allocated f) [0..<length (order_items f)] = [] then Inl ValidationError
      else Inr (f\<lparr>picking_tasks := picking_tasks f @
             [\<lparr>pt_picker = None, pt_status = PENDING,
               pt_items =
                 map (\<lambda>i. \<lparr>pi_item = i, pi_expected = active_quantity f i, pi_picked = None\<rparr>)
                   (filter (is_allocated f) [0..<length (order_items f)])\<rparr>]\<rparr>))"

text \<open>Modelled from the spec: \<open>OrderService.generate_picking\<close> (PICKING requires ALLOCATED).\<close>

definition generate_picking :: "fulfillment \<Rightarrow> error + fulfillment" where
  "generate_picking f =
     (case validate_transition (status f) PICKING of
        Inl e \<Rightarrow> Inl e
      | Inr u \<Rightarrow>
          (case generate_tasks f of
             Inl e \<Rightarrow> Inl e
           | Inr f1 \<Rightarrow> advance PICKING ''generate_picking'' f1))"

text \<open>
  Modelled from the spec: \<open>PickingService.assign_picker\<close>. "Requires status PENDING;
  sets picker, transitions to IN_PROGRESS." A task id that names no task of the order is
  malformed input.
\<close>

definition assign_picker :: "nat \<Rightarrow> string \<Rightarrow> fulfillment \<Rightarrow> error + fulfillment" where
  "assign_picker task_id picker_id f =
     (if length (picking_tasks f) \<le> task_id then Inl ValidationError
      else if pt_status (picking_tasks f ! task_id) \<noteq> PENDING then Inl InvalidTransitionError
      else Inr (audit ''picking_task'' ''assign_picker'' picker_id
             (f\<lparr>picking_tasks := (picking_tasks f)
                  [task_id := (picking_tasks f ! task_id)
                     \<lparr>pt_picker := Some picker_id, pt_status := IN_PROGRESS\<rparr>]\<rparr>)))"

text \<open>
  Modelled from the spec: \<open>PickingService.update_picked\<close>. "For each update,
  quantity_picked must be \<open>\<ge> 0\<close> and \<open>\<le>\<close> quantity_expected; rejects with
  \<open>ValidationError\<close> otherwise; accumulates rather than overwrites if called multiple
  times, but never exceeds the cap." An update that would take the accumulated quantity
  over the expected one is rejected ("all services must re-read current accumulated
  quantities before validating a new increment"), as is an update for an item the task
  does not hold. A rejected update rejects the whole call.
\<close>

fun apply_update :: "nat \<times> decimal \<Rightarrow> picking_item list \<Rightarrow> error + picking_item list" where
  "apply_update (i, q) [] = Inl ValidationError"
| "apply_update (i, q) (p # ps) =
     (if pi_item p = i
      then (if 0 \<le> q \<and> q \<le> pi_expected p \<and> picked_value p + q \<le> pi_expected p
            then Inr (p\<lparr>pi_picked := Some (picked_value p + q)\<rparr> # ps)
            else Inl ValidationError)
      else (case apply_update (i, q) ps of Inl e \<Rightarrow> Inl e | Inr ps' \<Rightarrow> Inr (p # ps')))"

fun apply_updates :: "(nat \<times> decimal) list \<Rightarrow> picking_item list \<Rightarrow> error + picking_item list" where
  "apply_updates [] ps = Inr ps"
| "apply_updates (u # us) ps =
     (case apply_update u ps of Inl e \<Rightarrow> Inl e | Inr ps' \<Rightarrow> apply_updates us ps')"

definition update_picked :: "nat \<Rightarrow> (nat \<times> decimal) list \<Rightarrow> fulfillment \<Rightarrow> error + fulfillment" where
  "update_picked task_id item_updates f =
     (if length (picking_tasks f) \<le> task_id then Inl ValidationError
      else
        (case apply_updates item_updates (pt_items (picking_tasks f ! task_id)) of
           Inl e \<Rightarrow> Inl e
         | Inr ps \<Rightarrow>
             Inr (audit ''picking_task'' ''update_picked'' []
               (f\<lparr>picking_tasks := (picking_tasks f)
                    [task_id := (picking_tasks f ! task_id)\<lparr>pt_items := ps\<rparr>]\<rparr>))))"

text \<open>
  Modelled from the spec: \<open>PickingService.complete\<close>. "Requires every PickingItem's
  quantity_picked to have been set (short-picks are allowed and recorded); transitions
  task to COMPLETED; does not itself advance Order status."
\<close>

definition complete_picking :: "nat \<Rightarrow> fulfillment \<Rightarrow> error + fulfillment" where
  "complete_picking task_id f =
     (if length (picking_tasks f) \<le> task_id then Inl ValidationError
      else if list_ex (\<lambda>p. pi_picked p = None) (pt_items (picking_tasks f ! task_id))
      then Inl ValidationError
      else Inr (audit ''picking_task'' ''complete'' []
             (f\<lparr>picking_tasks := (picking_tasks f)
                  [task_id := (picking_tasks f ! task_id)\<lparr>pt_status := COMPLETED\<rparr>]\<rparr>)))"

section \<open>PackingService\<close>

text \<open>
  Modelled from the spec: \<open>OrderService.create_packing\<close> (PACKING requires PICKING),
  which creates the order's packing task, with no package yet.
\<close>

definition create_packing :: "fulfillment \<Rightarrow> error + fulfillment" where
  "create_packing f =
     (case validate_transition (status f) PACKING of
        Inl e \<Rightarrow> Inl e
      | Inr u \<Rightarrow>
          advance PACKING ''create_packing''
            (f\<lparr>packing_tasks := packing_tasks f @ [\<lparr>pa_status = PENDING, pa_packages = []\<rparr>]\<rparr>))"

text \<open>
  Modelled from the spec: \<open>PackingService.create_package\<close>. "Validates
  dimensions/max_weight > 0; creates Package in OPEN status."
\<close>

record package_spec =
  ps_length :: decimal
  ps_width :: decimal
  ps_height :: decimal
  ps_empty_weight :: decimal
  ps_max_weight :: decimal

definition create_package :: "nat \<Rightarrow> package_spec \<Rightarrow> fulfillment \<Rightarrow> error + fulfillment" where
  "create_package task_id spec f =
     (if length (packing_tasks f) \<le> task_id then Inl ValidationError
      else if \<not> (0 < ps_length spec \<and> 0 < ps_width spec \<and> 0 < ps_height spec
                 \<and> 0 < ps_max_weight spec)
      then Inl ValidationError
      else Inr (audit ''package'' ''create'' []
             (f\<lparr>packing_tasks := (packing_tasks f)
                  [task_id := (packing_tasks f ! task_id)
                     \<lparr>pa_packages := pa_packages (packing_tasks f ! task_id) @
                        [\<lparr>pkg_length = ps_length spec, pkg_width = ps_width spec,
                          pkg_height = ps_height spec, pkg_empty_weight = ps_empty_weight spec,
                          pkg_max_weight = ps_max_weight spec, pkg_status = OPEN,
                          pkg_items = []\<rparr>]\<rparr>]\<rparr>)))"

text \<open>
  Modelled from the spec: the weight of a package, "empty_weight + \<open>\<Sigma>\<close> item_weight \<open>\<times>\<close> quantity" over the items
  it contains, the unit weight being the one of the order item.
\<close>

definition contents_weight :: "order_item list \<Rightarrow> package_item list \<Rightarrow> decimal" where
  "contents_weight its xs =
     sum_list (map (\<lambda>x. oi_unit_weight (its ! pki_item x) * pki_quantity x) xs)"

definition package_weight :: "order_item list \<Rightarrow> package \<Rightarrow> decimal" where
  "package_weight its p = pkg_empty_weight p + contents_weight its (pkg_items p)"

text \<open>
  Modelled from the spec: \<open>PackingService.add_item\<close>. "\<open>add_item(task_id, package_id,
  order_item_id, quantity)\<close>: package must be OPEN; quantity \<open>\<le>\<close> (picked quantity for
  that item - already packed quantity across all packages for that item); projected total
  weight (empty_weight + \<open>\<Sigma>\<close> item_weight \<open>\<times>\<close> quantity) must not exceed max_weight, else
  \<open>PackageOverweightError\<close>." The checks are made in the order the spec lists them,
  after the ids have been resolved; ids that name nothing are malformed input.
\<close>

definition projected_weight :: "fulfillment \<Rightarrow> nat \<Rightarrow> nat \<Rightarrow> nat \<Rightarrow> decimal \<Rightarrow> decimal" where
  "projected_weight f task_id package_id order_item_id quantity =
     package_weight (order_items f) (pa_packages (packing_tasks f ! task_id) ! package_id)
     + oi_unit_weight (order_items f ! order_item_id) * quantity"

definition add_item :: "nat \<Rightarrow> nat \<Rightarrow> nat \<Rightarrow> decimal \<Rightarrow> fulfillment \<Rightarrow> error + fulfillment" where
  "add_item task_id package_id order_item_id quantity f =
     (if length (packing_tasks f) \<le> task_id then Inl ValidationError
      else if length (pa_packages (packing_tasks f ! task_id)) \<le> package_id then Inl ValidationError
      else if length (order_items f) \<le> order_item_id then Inl ValidationError
      else if pkg_status (pa_packages (packing_tasks f ! task_id) ! package_id) \<noteq> OPEN
      then Inl InvalidTransitionError
      else if picked_quantity f order_item_id - packed_quantity f order_item_id < quantity
      then Inl ValidationError
      else if pkg_max_weight (pa_packages (packing_tasks f ! task_id) ! package_id)
                < projected_weight f task_id package_id order_item_id quantity
      then Inl PackageOverweightError
      else Inr (audit ''package'' ''add_item'' []
             (f\<lparr>packing_tasks := (packing_tasks f)
                  [task_id := (packing_tasks f ! task_id)
                     \<lparr>pa_packages := (pa_packages (packing_tasks f ! task_id))
                        [package_id := (pa_packages (packing_tasks f ! task_id) ! package_id)
                           \<lparr>pkg_items :=
                              pkg_items (pa_packages (packing_tasks f ! task_id) ! package_id) @
                              [\<lparr>pki_item = order_item_id, pki_quantity = quantity\<rparr>]\<rparr>]\<rparr>]\<rparr>)))"

text \<open>
  Modelled from the spec: \<open>PackingService.finalize_package\<close>. "Transitions Package to
  FINALIZED; no further item mutation permitted."
\<close>

definition finalize_package :: "nat \<Rightarrow> nat \<Rightarrow> fulfillment \<Rightarrow> error + fulfillment" where
  "finalize_package task_id package_id f =
     (if length (packing_tasks f) \<le> task_id then Inl ValidationError
      else if length (pa_packages (packing_tasks f ! task_id)) \<le> package_id then Inl ValidationError
      else if pkg_status (pa_packages (packing_tasks f ! task_id) ! package_id) \<noteq> OPEN
      then Inl InvalidTransitionError
      else Inr (audit ''package'' ''finalize'' []
             (f\<lparr>packing_tasks := (packing_tasks f)
                  [task_id := (packing_tasks f ! task_id)
                     \<lparr>pa_packages := (pa_packages (packing_tasks f ! task_id))
                        [package_id := (pa_packages (packing_tasks f ! task_id) ! package_id)
                           \<lparr>pkg_status := FINALIZED\<rparr>]\<rparr>]\<rparr>)))"

text \<open>
  Modelled from the spec: \<open>PackingService.complete\<close>. "Requires all order items fully
  packed (packed quantity == picked quantity for every item) and all packages FINALIZED;
  transitions task to COMPLETED."
\<close>

definition complete_packing :: "nat \<Rightarrow> fulfillment \<Rightarrow> error + fulfillment" where
  "complete_packing task_id f =
     (if length (packing_tasks f) \<le> task_id then Inl ValidationError
      else if list_ex (\<lambda>i. packed_quantity f i \<noteq> picked_quantity f i) [0..<length (order_items f)]
      then Inl ValidationError
      else if list_ex (\<lambda>p. pkg_status p \<noteq> FINALIZED) (pa_packages (packing_tasks f ! task_id))
      then Inl InvalidTransitionError
      else Inr (audit ''packing_task'' ''complete'' []
             (f\<lparr>packing_tasks := (packing_tasks f)
                  [task_id := (packing_tasks f ! task_id)\<lparr>pa_status := COMPLETED\<rparr>]\<rparr>)))"

section \<open>ShippingService\<close>

text \<open>
  Modelled from the spec: \<open>ShippingService.create_shipment\<close> and
  \<open>OrderService.create_shipment\<close> (SHIPPED requires PACKING). "All referenced packages
  must be FINALIZED and belong to the order's PackingTask; creates Shipment in CREATED
  status with one ShipmentItem per package." A package is referred to by the positions of
  its task and of itself in the task.
\<close>

definition package_finalized :: "fulfillment \<Rightarrow> nat \<times> nat \<Rightarrow> bool" where
  "package_finalized f r \<longleftrightarrow>
     fst r < length (packing_tasks f)
     \<and> snd r < length (pa_packages (packing_tasks f ! fst r))
     \<and> pkg_status (pa_packages (packing_tasks f ! fst r) ! snd r) = FINALIZED"

definition shipping_create_shipment ::
  "string \<Rightarrow> string \<Rightarrow> string \<Rightarrow> (nat \<times> nat) list \<Rightarrow> fulfillment \<Rightarrow> error + fulfillment" where
  "shipping_create_shipment carrier ship_from ship_to packages f =
     (if list_all (package_finalized f) packages
      then Inr (f\<lparr>shipments := shipments f @
             [\<lparr>sh_carrier = carrier, sh_tracking_number = None, sh_ship_from = ship_from,
               sh_ship_to = ship_to, sh_status = SHIPMENT_CREATED, sh_items = packages\<rparr>]\<rparr>)
      else Inl ValidationError)"

definition package_refs :: "fulfillment \<Rightarrow> (nat \<times> nat) list" where
  "package_refs f =
     concat (map (\<lambda>t. map (\<lambda>p. (t, p)) [0..<length (pa_packages (packing_tasks f ! t))])
       [0..<length (packing_tasks f)])"

definition create_shipment :: "string \<Rightarrow> string \<Rightarrow> string \<Rightarrow> fulfillment \<Rightarrow> error + fulfillment" where
  "create_shipment carrier ship_from ship_to f =
     (case validate_transition (status f) SHIPPED of
        Inl e \<Rightarrow> Inl e
      | Inr u \<Rightarrow>
          (case shipping_create_shipment carrier ship_from ship_to (package_refs f) f of
             Inl e \<Rightarrow> Inl e
           | Inr f1 \<Rightarrow> advance SHIPPED ''create_shipment'' f1))"

text \<open>
  Modelled from the spec: \<open>ShippingService.assign_tracking\<close>. "Sets tracking_number,
  transitions CREATED to LABEL_GENERATED."
\<close>

definition assign_tracking :: "nat \<Rightarrow> string \<Rightarrow> fulfillment \<Rightarrow> error + fulfillment" where
  "assign_tracking shipment_id tracking_number f =
     (if length (shipments f) \<le> shipment_id then Inl ValidationError
      else if sh_status (shipments f ! shipment_id) \<noteq> SHIPMENT_CREATED
      then Inl InvalidTransitionError
      else Inr (audit ''shipment'' ''assign_tracking'' tracking_number
             (f\<lparr>shipments := (shipments f)
                  [shipment_id := (shipments f ! shipment_id)
                     \<lparr>sh_tracking_number := Some tracking_number,
                      sh_status := LABEL_GENERATED\<rparr>]\<rparr>)))"

text \<open>
  Modelled from the spec: \<open>ShippingService.update_status\<close>. "Enforces a forward-only
  status sequence (LABEL_GENERATED, IN_TRANSIT, DELIVERED), with EXCEPTION reachable from
  any non-terminal shipment status; on DELIVERED, signals OrderService to advance Order
  to DELIVERED."
\<close>

definition shipment_step :: "shipment_status \<Rightarrow> shipment_status \<Rightarrow> bool" where
  "shipment_step current requested \<longleftrightarrow>
     (current = LABEL_GENERATED \<and> requested = IN_TRANSIT)
     \<or> (current = IN_TRANSIT \<and> requested = SHIPMENT_DELIVERED)
     \<or> (requested = EXCEPTION \<and> current \<noteq> SHIPMENT_DELIVERED \<and> current \<noteq> EXCEPTION)"

definition update_status :: "nat \<Rightarrow> shipment_status \<Rightarrow> string \<Rightarrow> fulfillment \<Rightarrow> error + fulfillment" where
  "update_status shipment_id new_status notes f =
     (if length (shipments f) \<le> shipment_id then Inl ValidationError
      else if \<not> shipment_step (sh_status (shipments f ! shipment_id)) new_status
      then Inl InvalidTransitionError
      else
        (case (if new_status = SHIPMENT_DELIVERED then advance DELIVERED ''deliver'' f else Inr f) of
           Inl e \<Rightarrow> Inl e
         | Inr f1 \<Rightarrow>
             Inr (audit ''shipment'' ''update_status'' notes
               (f1\<lparr>shipments := (shipments f1)
                     [shipment_id := (shipments f1 ! shipment_id)\<lparr>sh_status := new_status\<rparr>]\<rparr>))))"

text \<open>
  Modelled from the spec: \<open>ShippingService.generate_manifest\<close>, a "read-only projection
  listing packages, items, and weights - no mutation": per package of the shipment, its
  items and its weight.
\<close>

definition generate_manifest ::
  "nat \<Rightarrow> fulfillment \<Rightarrow> error + ((nat \<times> nat) \<times> package_item list \<times> decimal) list" where
  "generate_manifest shipment_id f =
     (if length (shipments f) \<le> shipment_id then Inl ValidationError
      else Inr (map (\<lambda>r. (r, pkg_items (pa_packages (packing_tasks f ! fst r) ! snd r),
                           package_weight (order_items f)
                             (pa_packages (packing_tasks f ! fst r) ! snd r)))
                  (sh_items (shipments f ! shipment_id))))"

section \<open>The operations exposed to callers\<close>

text \<open>
  Modelled from the spec: the orchestration surface of section 6, which is the list of
  endpoints of the module's README: the operations on orders, picking tasks, packing
  tasks and shipments, each on the aggregate of the order it names. An operation either
  returns the changed aggregate, which is then persisted, or fails and leaves the store
  as it was; the inventory system keeps whatever the adapter calls did to it.
\<close>

datatype api_call =
    Approve
  | Allocate
  | GeneratePicking
  | CreatePacking
  | CreateShipment string string string
  | Cancel string
  | AssignPicker nat string
  | UpdatePicked nat "(nat \<times> decimal) list"
  | CompletePicking nat
  | CreatePackage nat package_spec
  | AddItem nat nat nat decimal
  | FinalizePackage nat nat
  | CompletePacking nat
  | AssignTracking nat string
  | UpdateStatus nat shipment_status string
  | GenerateManifest nat

fun perform :: "'s inventory_adapter \<Rightarrow> 's \<Rightarrow> api_call \<Rightarrow> fulfillment \<Rightarrow> (error + fulfillment) \<times> 's" where
  "perform ad iv Approve f = (approve f, iv)"
| "perform ad iv Allocate f = allocate ad iv f"
| "perform ad iv GeneratePicking f = (generate_picking f, iv)"
| "perform ad iv CreatePacking f = (create_packing f, iv)"
| "perform ad iv (CreateShipment carrier ship_from ship_to) f =
     (create_shipment carrier ship_from ship_to f, iv)"
| "perform ad iv (Cancel reason) f = cancel ad iv reason f"
| "perform ad iv (AssignPicker t picker) f = (assign_picker t picker f, iv)"
| "perform ad iv (UpdatePicked t us) f = (update_picked t us f, iv)"
| "perform ad iv (CompletePicking t) f = (complete_picking t f, iv)"
| "perform ad iv (CreatePackage t spec) f = (create_package t spec f, iv)"
| "perform ad iv (AddItem t p i q) f = (add_item t p i q f, iv)"
| "perform ad iv (FinalizePackage t p) f = (finalize_package t p f, iv)"
| "perform ad iv (CompletePacking t) f = (complete_packing t f, iv)"
| "perform ad iv (AssignTracking s n) f = (assign_tracking s n f, iv)"
| "perform ad iv (UpdateStatus s new notes) f = (update_status s new notes f, iv)"
| "perform ad iv (GenerateManifest s) f =
     (case generate_manifest s f of Inl e \<Rightarrow> Inl e | Inr m \<Rightarrow> Inr f, iv)"

definition call :: "'s inventory_adapter \<Rightarrow> nat \<Rightarrow> api_call \<Rightarrow> 's store \<Rightarrow> (error + unit) \<times> 's store" where
  "call ad oid c st =
     (case orders st oid of
        None \<Rightarrow> (Inl ValidationError, st)
      | Some f \<Rightarrow>
          (case perform ad (inventory st) c f of
             (Inl e, iv) \<Rightarrow> (Inl e, st\<lparr>inventory := iv\<rparr>)
           | (Inr f1, iv) \<Rightarrow> (Inr (), st\<lparr>orders := (orders st)(oid \<mapsto> f1), inventory := iv\<rparr>)))"

text \<open>
  Modelled from the spec: the stores the system can be in: the empty store, and what a call of
  \<open>create_order\<close> or of another operation makes of a reachable store. Between two
  operations the inventory system may change in any way (other clients use it).
\<close>

inductive reachable :: "'s inventory_adapter \<Rightarrow> 's store \<Rightarrow> bool" for ad where
  initial: "reachable ad \<lparr>orders = Map.empty, next_order_id = 0, inventory = iv\<rparr>"
| created: "reachable ad st \<Longrightarrow> reachable ad (snd (create_order wh prio inputs st))"
| called: "reachable ad st \<Longrightarrow> reachable ad (snd (call ad oid c st))"
| inventory_changed: "reachable ad st \<Longrightarrow> reachable ad (st\<lparr>inventory := iv\<rparr>)"

section \<open>The reconciliation of quantities\<close>

text \<open>
  Modelled from the spec: the three inequalities of section 8, per order item: "\<open>\<Sigma>\<close>(ACTIVE allocation quantity
  for item) \<open>\<le>\<close> ordered quantity; \<open>\<Sigma>\<close>(picked quantity) \<open>\<le>\<close> \<open>\<Sigma>\<close>(allocated quantity);
  \<open>\<Sigma>\<close>(packed quantity across packages) \<open>\<le>\<close> picked quantity". The allocated quantity
  of the second one is the quantity on the item's allocation rows, released or not: a
  cancellation releases the allocations and keeps the record of what was picked.
\<close>

definition reconciled :: "fulfillment \<Rightarrow> nat \<Rightarrow> bool" where
  "reconciled f i \<longleftrightarrow>
     active_quantity f i \<le> oi_quantity (order_items f ! i)
     \<and> picked_quantity f i \<le> allocated_quantity f i
     \<and> packed_quantity f i \<le> picked_quantity f i"

text \<open>
  What every aggregate of a reachable store satisfies besides, and the inequalities rest
  on: ordered quantities are positive; an order not yet allocated has no allocation, one
  not yet in picking no picking task; until an order is cancelled its allocations are
  all ACTIVE; no picking item holds more than it expects, and the picking items of an
  order item expect no more than was allocated to it.
\<close>

definition consistent :: "fulfillment \<Rightarrow> bool" where
  "consistent f \<longleftrightarrow>
     (\<forall>it \<in> set (order_items f). 0 < oi_quantity it)
     \<and> (status f = CREATED \<or> status f = APPROVED \<longrightarrow> allocations f = [])
     \<and> (status f = CREATED \<or> status f = APPROVED \<or> status f = ALLOCATED \<longrightarrow>
          picking_tasks f = [])
     \<and> (status f \<noteq> CANCELLED \<longrightarrow> (\<forall>a \<in> set (allocations f). al_status a = ACTIVE))
     \<and> (\<forall>i. 0 \<le> active_quantity f i)
     \<and> (\<forall>ps \<in> set (map pt_items (picking_tasks f)). \<forall>p \<in> set ps. picked_value p \<le> pi_expected p)
     \<and> (\<forall>i. expected_quantity f i \<le> allocated_quantity f i)
     \<and> (\<forall>i < length (order_items f). active_quantity f i \<le> oi_quantity (order_items f ! i))
     \<and> (\<forall>i. packed_quantity f i \<le> picked_quantity f i)"

section \<open>Example adapters\<close>

text \<open>
  Three adapters for the examples, each reporting a fixed availability per sku. The first
  two have no state of their own: one accepts every reservation and every release, the
  other is an inventory system whose \<open>reserve\<close> fails. The third keeps the list of
  the reservations it holds and refuses to reserve the skus of a given list.
\<close>

definition reporting_adapter :: "(string \<Rightarrow> (string \<times> decimal) list) \<Rightarrow> unit inventory_adapter" where
  "reporting_adapter report =
     \<lparr>check_availability = (\<lambda>iv sku qty wh. report sku),
      reserve = (\<lambda>iv sku qty loc ref. Some (sku @ ''@'' @ loc, ())),
      release = (\<lambda>iv rid. (True, ()))\<rparr>"

definition failing_adapter :: "(string \<Rightarrow> (string \<times> decimal) list) \<Rightarrow> unit inventory_adapter" where
  "failing_adapter report =
     \<lparr>check_availability = (\<lambda>iv sku qty wh. report sku),
      reserve = (\<lambda>iv sku qty loc ref. None),
      release = (\<lambda>iv rid. (False, ()))\<rparr>"


section \<open>Example inputs\<close>

text \<open>
  Two line items of quantity \<open>1\<close> whose unit prices are what \<open>parseFloat\<close> returns for
  the inputs \<open>0.1\<close> and \<open>0.2\<close>: the doubles nearest one tenth and two tenths.
\<close>

definition drift_items :: "line_item list" where
  "drift_items =
     [\<lparr>item_code = ''A'', item_description = ''first'', quantity_ordered = Fin 1,
       unit_price = rnd (1 / 10)\<rparr>,
      \<lparr>item_code = ''B'', item_description = ''second'', quantity_ordered = Fin 1,
       unit_price = rnd (2 / 10)\<rparr>]"

text \<open>Ten units at 25.50 and three units at 0.50: every value involved is a double.\<close>

definition dyadic_items :: "line_item list" where
  "dyadic_items =
     [\<lparr>item_code = ''PROD-001'', item_description = ''Product Name'',
       quantity_ordered = Fin 10, unit_price = Fin (51 / 2)\<rparr>,
      \<lparr>item_code = ''PROD-002'', item_description = ''Other'',
       quantity_ordered = Fin 3, unit_price = Fin (1 / 2)\<rparr>]"

text \<open>
  Seven units at \<open>0.1\<close> and one unit at \<open>0.2\<close>, the unit prices again as
  \<open>parseFloat\<close> returns them.
\<close>

definition rounding_items :: "line_item list" where
  "rounding_items =
     [\<lparr>item_code = ''A'', item_description = ''first'', quantity_ordered = Fin 7,
       unit_price = rnd (1 / 10)\<rparr>,
      \<lparr>item_code = ''B'', item_description = ''second'', quantity_ordered = Fin 1,
       unit_price = rnd (2 / 10)\<rparr>]"

text \<open>The line items of the end-to-end scenario: ten units at 5 and five units at 20.\<close>

definition scenario_items :: "line_item list" where
  "scenario_items =
     [\<lparr>item_code = ''A'', item_description = ''Item A'', quantity_ordered = Fin 10,
       unit_price = Fin 5\<rparr>,
      \<lparr>item_code = ''B'', item_description = ''Item B'', quantity_ordered = Fin 5,
       unit_price = Fin 20\<rparr>]"

text \<open>A line item whose quantity did not parse: \<open>parseFloat\<close> returned \<open>NaN\<close>.\<close>

definition unparsed_item :: line_item where
  "unparsed_item =
     \<lparr>item_code = ''C'', item_description = ''Item C'', quantity_ordered = NaN,
      unit_price = Fin 3\<rparr>"

text \<open>A form with every field filled in and no line item.\<close>

definition example_form :: "po_form" where
  "example_form =
     \<lparr>formData = \<lparr>vendor = JNum (Fin 7), order_date = JStr ''2024-12-05'', priority = JStr ''MEDIUM''\<rparr>,
      lineItems = [], error = [], formErrors = [], saving = False, requests = [],
      location = ''/purchase-orders/new''\<rparr>"

text \<open>A user with two roles, one of them without a permissions array.\<close>

definition example_user :: user where
  "example_user =
     \<lparr>roles = Some
        [\<lparr>name = ''operator'', permissions = None\<rparr>,
         \<lparr>name = ''warehouse'',
          permissions = Some [\<lparr>codename = ''view_asn''\<rparr>, \<lparr>codename = ''add_asn''\<rparr>]\<rparr>]\<rparr>"

text \<open>
  The order of the end-to-end scenario: ten of A at 5 and five of B at 20, with the
  inventory reporting ten of A and five of B at location L1.
\<close>

definition stock_report :: "string \<Rightarrow> (string \<times> decimal) list" where
  "stock_report sku =
     (if sku = ''A'' then [(''L1'', 10)] else if sku = ''B'' then [(''L1'', 5)] else [])"

definition input_A :: item_input where
  "input_A = \<lparr>in_sku = Some ''A'', in_quantity = Some 10, in_unit_price = Some 5,
              in_unit_weight = 1\<rparr>"

definition input_B :: item_input where
  "input_B = \<lparr>in_sku = Some ''B'', in_quantity = Some 5, in_unit_price = Some 20,
              in_unit_weight = 2\<rparr>"

definition empty_store :: "unit store" where
  "empty_store = \<lparr>orders = Map.empty, next_order_id = 0, inventory = ()\<rparr>"

definition order_AB :: fulfillment where
  "order_AB =
     new_order 0 1 ''MEDIUM''
       [\<lparr>oi_sku = ''A'', oi_quantity = 10, oi_unit_price = 5, oi_unit_weight = 1\<rparr>,
        \<lparr>oi_sku = ''B'', oi_quantity = 5, oi_unit_price = 20, oi_unit_weight = 2\<rparr>]"

text \<open>
  The same order in packing: both items allocated and picked in full, and one open,
  empty package of empty weight one half that may weigh ten and a half.
\<close>

definition order_in_packing :: fulfillment where
  "order_in_packing =
     order_AB
       \<lparr>status := PACKING,
        allocations :=
          [\<lparr>al_item = 0, al_location = ''L1'', al_quantity = 10, al_reservation_id = ''A@L1'',
            al_status = ACTIVE\<rparr>,
           \<lparr>al_item = 1, al_location = ''L1'', al_quantity = 5, al_reservation_id = ''B@L1'',
            al_status = ACTIVE\<rparr>],
        picking_tasks :=
          [\<lparr>pt_picker = Some ''picker'', pt_status = COMPLETED,
            pt_items = [\<lparr>pi_item = 0, pi_expected = 10, pi_picked = Some 10\<rparr>,
                        \<lparr>pi_item = 1, pi_expected = 5, pi_picked = Some 5\<rparr>]\<rparr>],
        packing_tasks :=
          [\<lparr>pa_status = PENDING,
            pa_packages =
              [\<lparr>pkg_length = 30, pkg_width = 20, pkg_height = 15, pkg_empty_weight = 1 / 2,
                pkg_max_weight = 21 / 2, pkg_status = OPEN, pkg_items = []\<rparr>]\<rparr>]\<rparr>"





text \<open>
  A run of the operations on the order of the scenario, from its creation to the packing
  of seven of the ten picked units of A.
\<close>

definition scenario_adapter :: "unit inventory_adapter" where
  "scenario_adapter = reporting_adapter stock_report"

definition scenario_calls :: "api_call list" where
  "scenario_calls =
     [Approve, Allocate, GeneratePicking, AssignPicker 0 ''picker'', UpdatePicked 0 [(0, 4)],
      UpdatePicked 0 [(0, 6), (1, 5)], CompletePicking 0, CreatePacking,
      CreatePackage 0 \<lparr>ps_length = 30, ps_width = 20, ps_height = 15, ps_empty_weight = 1 / 2,
                        ps_max_weight = 25\<rparr>,
      AddItem 0 0 0 7]"

definition scenario_store :: "unit store" where
  "scenario_store =
     foldl (\<lambda>st c. snd (call scenario_adapter 0 c st))
       (snd (create_order 1 ''MEDIUM'' [input_A, input_B] empty_store)) scenario_calls"

chapter \<open>Properties\<close>

section \<open>JavaScript numbers: values that need no rounding\<close>

lemma round_half_even_of_int: "round_half_even (of_int n) = n"
  by (simp add: round_half_even_def)


lemma ilog2_lower:
  assumes "q \<noteq> 0"
  shows "2 powi (ilog2 q) \<le> \<bar>q\<bar>"
proof -
  obtain a b where ab: "quotient_of \<bar>q\<bar> = (a, b)" by (cases "quotient_of \<bar>q\<bar>")
  have b: "0 < b" using ab by (rule quotient_of_denom_pos)
  have q: "\<bar>q\<bar> = of_int a / of_int b" using ab by (rule quotient_of_div)
  have "0 < \<bar>q\<bar>" using assms by simp
  with q b have a: "0 < a" by (simp add: zero_less_divide_iff)
  have la: "1 \<le> bitlen a" using a by (simp add: bitlen_ge_iff_power)
  have lb: "0 \<le> bitlen b" by (rule bitlen_nonneg)
  have "(2::int) ^ nat (bitlen a - 1) \<le> a" using bitlen_bounds [OF a] by simp
  then have "rat_of_int (2 ^ nat (bitlen a - 1)) \<le> of_int a" by (simp only: of_int_le_iff)
  then have A: "(2::rat) powi (bitlen a - 1) \<le> of_int a"
    using la by (simp add: power_int_def)
  have "b < 2 ^ nat (bitlen b)" using bitlen_bounds [OF b] by simp
  then have "rat_of_int b < of_int (2 ^ nat (bitlen b))" by (simp only: of_int_less_iff)
  then have B: "of_int b \<le> (2::rat) powi (bitlen b)"
    using lb by (simp add: power_int_def)
  have "(2::rat) powi (bitlen a - bitlen b - 1) = 2 powi (bitlen a - 1) / 2 powi (bitlen b)"
    using power_int_diff [of "2::rat" "bitlen a - 1" "bitlen b"] by (simp add: algebra_simps)
  also have "\<dots> \<le> of_int a / of_int b"
    using A B b a by (intro frac_le) simp_all
  finally have "2 powi (bitlen a - bitlen b - 1) \<le> \<bar>q\<bar>" by (simp add: q)
  then show ?thesis
    by (simp add: ilog2_def ab Let_def)
qed

lemma ilog2_le_53:
  assumes "q \<noteq> 0" "\<bar>q\<bar> \<le> 2 ^ 53"
  shows "ilog2 q \<le> 53"
proof -
  have "(2::rat) powi (ilog2 q) \<le> 2 powi 53"
    using ilog2_lower [OF assms(1)] assms(2) by simp
  then show ?thesis
    by (rule power_int_le_imp_le_exp [rotated]) simp_all
qed

lemma rnd_exact:
  assumes "is_double q"
  shows "rnd q = Fin q"
proof (cases "q = 0")
  case True
  then show ?thesis by (simp add: rnd_def)
next
  case False
  from assms obtain m k where q: "q = of_int m * 2 powi k" and m: "\<bar>m\<bar> < 2 ^ 53"
    and k: "- 1074 \<le> k" "k \<le> 971"
    by (auto simp: is_double_def)
  define e where "e = max (ilog2 q - 52) (- 1074)"
  have absq: "\<bar>q\<bar> = of_int \<bar>m\<bar> * 2 powi k" by (simp add: q abs_mult)
  have "rat_of_int \<bar>m\<bar> < of_int (2 ^ 53)" using m by (simp only: of_int_less_iff)
  then have m': "rat_of_int \<bar>m\<bar> < 2 powi 53" by simp
  have lt: "\<bar>q\<bar> < 2 powi (53 + k)"
  proof -
    have "\<bar>q\<bar> < 2 powi 53 * 2 powi k"
      unfolding absq using m' by (intro mult_strict_right_mono) simp_all
    then show ?thesis by (simp add: power_int_add)
  qed
  have "(2::rat) powi (ilog2 q) < 2 powi (53 + k)"
    using ilog2_lower [OF False] lt by simp
  then have "ilog2 q < 53 + k"
  proof (rule contrapos_pp)
    assume "\<not> ilog2 q < 53 + k"
    then have "(2::rat) powi (53 + k) \<le> 2 powi (ilog2 q)"
      by (intro power_int_increasing) simp_all
    then show "\<not> (2::rat) powi (ilog2 q) < 2 powi (53 + k)" by simp
  qed
  then have e_le: "e \<le> k" using k by (simp add: e_def)
  have "(2::rat) powi k / 2 powi e = 2 powi (k - e)"
    by (simp add: power_int_diff)
  also have "\<dots> = 2 ^ nat (k - e)"
    using e_le by (simp add: power_int_def)
  finally have "(2::rat) powi k / 2 powi e = 2 ^ nat (k - e)" .
  then have "q / 2 powi e = of_int m * 2 ^ nat (k - e)"
    unfolding q times_divide_eq_right [symmetric] by (rule arg_cong)
  then have eq: "q / 2 powi e = of_int (m * 2 ^ nat (k - e))"
    by simp
  have "of_int (round_half_even (q / 2 powi e)) * 2 powi e = q / 2 powi e * 2 powi e"
    unfolding eq round_half_even_of_int ..
  also have "\<dots> = q" by simp
  finally have r: "of_int (round_half_even (q / 2 powi e)) * 2 powi e = q" .
  have "(2::rat) powi (53 + k) \<le> 2 powi 1024"
    using k by (intro power_int_increasing) simp_all
  with lt ilog2_lower [OF False] have "(2::rat) powi (ilog2 q) < 2 powi 1024"
    by simp
  then have "\<not> 1024 \<le> ilog2 q"
  proof (rule contrapos_pn)
    assume "1024 \<le> ilog2 q"
    then have "(2::rat) powi 1024 \<le> 2 powi (ilog2 q)"
      by (intro power_int_increasing) simp_all
    then show "\<not> (2::rat) powi (ilog2 q) < 2 powi 1024" by simp
  qed
  then show ?thesis
    using False r by (simp add: rnd_def Let_def e_def [symmetric])
qed


lemma is_doubleI:
  "\<bar>m\<bar> < 2 ^ 53 \<Longrightarrow> - 1074 \<le> k \<Longrightarrow> k \<le> 971 \<Longrightarrow> is_double (of_int m * 2 powi k)"
  unfolding is_double_def by blast

section \<open>JavaScript numbers: the error of a rounding\<close>

lemma round_half_even_error: "\<bar>of_int (round_half_even x) - x\<bar> \<le> 1 / 2"
proof -
  have a: "of_int \<lfloor>x\<rfloor> \<le> x" "x < of_int \<lfloor>x\<rfloor> + 1" by linarith+
  consider "x - of_int \<lfloor>x\<rfloor> < 1 / 2" | "1 / 2 < x - of_int \<lfloor>x\<rfloor>"
    | "x - of_int \<lfloor>x\<rfloor> = 1 / 2"
    by linarith
  then show ?thesis
  proof cases
    case 1
    with a show ?thesis by (simp add: round_half_even_def Let_def)
  next
    case 2
    with a show ?thesis by (simp add: round_half_even_def Let_def)
  next
    case 3
    with a show ?thesis by (simp add: round_half_even_def Let_def abs_if)
  qed
qed

lemma power_int_subnormal: "(2::rat) powi (- 1074 - 1) = 1 / 2 ^ 1075"
proof -
  have "(- 1074 - 1 :: int) = - 1075" by simp
  then show ?thesis
    by (simp only: power_int_minus power_int_numeral inverse_eq_divide)
qed

lemma rnd_error:
  assumes "rnd q = Fin r"
  shows "\<bar>r - q\<bar> \<le> max (\<bar>q\<bar> / 2 ^ 53) (1 / 2 ^ 1075)"
proof (cases "q = 0")
  case True
  with assms show ?thesis by (simp add: rnd_def)
next
  case False
  define e where "e = max (ilog2 q - 52) (- 1074)"
  define m where "m = round_half_even (q / 2 powi e)"
  from assms False have r: "r = of_int m * 2 powi e"
    by (simp add: rnd_def Let_def e_def [symmetric] m_def [symmetric] split: if_splits)
  have pos: "(0::rat) < 2 powi e" by simp
  have "\<bar>r - q\<bar> = \<bar>of_int m - q / 2 powi e\<bar> * 2 powi e"
  proof -
    have "r - q = (of_int m - q / 2 powi e) * 2 powi e"
      using pos by (simp add: r field_simps)
    then show ?thesis by (simp add: abs_mult)
  qed
  also have "\<dots> \<le> 1 / 2 * 2 powi e"
    unfolding m_def using round_half_even_error [of "q / 2 powi e"]
    by (intro mult_right_mono) simp_all
  also have "\<dots> = 2 powi (e - 1)"
    by (simp add: power_int_diff)
  finally have bound: "\<bar>r - q\<bar> \<le> 2 powi (e - 1)" .
  show ?thesis
  proof (cases "ilog2 q - 52 \<le> - 1074")
    case True
    then have "e = - 1074" by (simp add: e_def)
    then have "(2::rat) powi (e - 1) = 1 / 2 ^ 1075"
      by (simp only: power_int_subnormal)
    with bound show ?thesis by (simp only: max.coboundedI2)
  next
    case F: False
    then have "e = ilog2 q - 52" by (simp add: e_def)
    then have "(2::rat) powi (e - 1) = 2 powi (ilog2 q) / 2 powi 53"
      by (simp add: power_int_diff)
    also have "\<dots> \<le> \<bar>q\<bar> / 2 powi 53"
      using ilog2_lower [OF False] by (intro divide_right_mono) simp_all
    finally have "(2::rat) powi (e - 1) \<le> \<bar>q\<bar> / 2 ^ 53" by simp
    with bound show ?thesis by simp
  qed
qed

section \<open>AuthProvider\<close>

lemma hasPermission_loop_iff:
  "hasPermission_loop rs p \<longleftrightarrow>
     (\<exists>r \<in> set rs. \<exists>perm \<in> set (permissions_of r). codename perm = p)"
proof (induction rs)
  case Nil
  show ?case by simp
next
  case (Cons r rs)
  have "opt_some (\<lambda>perm. codename perm = p) (permissions r) \<longleftrightarrow>
          (\<exists>perm \<in> set (permissions_of r). codename perm = p)"
    by (cases "permissions r") (simp_all add: opt_some_def permissions_of_def list_ex_iff)
  with Cons.IH show ?case by simp
qed

text \<open>
  C9. With no user loaded, hasRole and hasPermission answer false for every argument.
  With a user loaded, \<open>hasRole r\<close> is true exactly when one of the user's roles is named
  \<open>r\<close>, and \<open>hasPermission p\<close> is true exactly when one of the user's roles holds a
  permission whose codename is \<open>p\<close>.
\<close>

theorem hasRole_hasPermission_spec:
  "hasRole None r = False
   \<and> hasPermission None p = False
   \<and> (hasRole (Some u) r \<longleftrightarrow> (\<exists>ro \<in> set (roles_of u). name ro = r))
   \<and> (hasPermission (Some u) p \<longleftrightarrow>
        (\<exists>ro \<in> set (roles_of u). \<exists>perm \<in> set (permissions_of ro). codename perm = p))"
proof -
  have role_part: "hasRole (Some u) r \<longleftrightarrow> (\<exists>ro \<in> set (roles_of u). name ro = r)"
    by (cases "roles u") (simp_all add: hasRole_def roles_of_def opt_some_def list_ex_iff)
  have perm_part: "hasPermission (Some u) p \<longleftrightarrow>
      (\<exists>ro \<in> set (roles_of u). \<exists>perm \<in> set (permissions_of ro). codename perm = p)"
    by (simp add: hasPermission_def roles_of_def hasPermission_loop_iff)
  show ?thesis
    using role_part perm_part by (simp add: hasRole_def hasPermission_def)
qed

theorem hasRole_hasPermission_spec_witness:
  "hasRole (Some example_user) ''warehouse'' \<and> \<not> hasRole (Some example_user) ''admin''
   \<and> hasPermission (Some example_user) ''add_asn''
   \<and> \<not> hasPermission (Some example_user) ''delete_asn''
   \<and> \<not> hasRole None ''warehouse'' \<and> \<not> hasPermission None ''add_asn''"
  using hasRole_hasPermission_spec
      [of "''warehouse''" "''add_asn''" example_user, unfolded list_ex_iff [symmetric]]
    hasRole_hasPermission_spec
      [of "''admin''" "''delete_asn''" example_user, unfolded list_ex_iff [symmetric]]
  by (simp add: example_user_def roles_of_def permissions_of_def)

section \<open>POForm.handleFormSubmit\<close>

lemma validation_errors_empty_iff:
  "validation_errors fd = [] \<longleftrightarrow>
     truthy (vendor fd) \<and> truthy (order_date fd) \<and> truthy (priority fd)"
  by (simp add: validation_errors_def)

lemma handleFormSubmit_requests:
  "requests (handleFormSubmit i api s) =
     (if lineItems s \<noteq> [] \<and> validation_errors (formData s) = []
      then requests s @ [case i of
                           Some j \<Rightarrow>
                             if j \<noteq> [] then Put j (formData s) (lineItems s)
                             else Post (formData s) (lineItems s)
                         | None \<Rightarrow> Post (formData s) (lineItems s)]
      else requests s)"
  by (cases api) (auto simp: handleFormSubmit_def Let_def split: option.splits)

text \<open>
  C10. A submission with no line item only sets the error message
  \<open>Please add at least one line item\<close>: the rest of the state, the list of issued
  requests included, is as before. A request is issued exactly when vendor, order date
  and priority are all present (truthy) and there is at least one line item; it is then
  the single request appended to the log.
\<close>

theorem handleFormSubmit_validation:
  "(lineItems s = [] \<longrightarrow>
      handleFormSubmit i api s = s\<lparr>error := ''Please add at least one line item''\<rparr>
      \<and> requests (handleFormSubmit i api s) = requests s)
   \<and> (requests (handleFormSubmit i api s) \<noteq> requests s \<longleftrightarrow>
        truthy (vendor (formData s)) \<and> truthy (order_date (formData s))
        \<and> truthy (priority (formData s)) \<and> lineItems s \<noteq> [])
   \<and> length (requests (handleFormSubmit i api s)) \<le> Suc (length (requests s))"
proof -
  have empty: "lineItems s = [] \<Longrightarrow>
      handleFormSubmit i api s = s\<lparr>error := ''Please add at least one line item''\<rparr>"
    by (simp add: handleFormSubmit_def)
  have issued: "requests (handleFormSubmit i api s) \<noteq> requests s \<longleftrightarrow>
      lineItems s \<noteq> [] \<and> validation_errors (formData s) = []"
    by (simp add: handleFormSubmit_requests)
  have bound: "length (requests (handleFormSubmit i api s)) \<le> Suc (length (requests s))"
    by (simp add: handleFormSubmit_requests)
  from empty issued bound show ?thesis
    by (auto simp: validation_errors_empty_iff)
qed

theorem handleFormSubmit_validation_witness:
  "handleFormSubmit None ApiOk example_form
     = example_form\<lparr>error := ''Please add at least one line item''\<rparr>
   \<and> requests (handleFormSubmit None ApiOk example_form) = []"
  using handleFormSubmit_validation [of example_form None ApiOk]
  by (simp add: example_form_def)

section \<open>POForm.calculateTotal\<close>

lemma calculateTotal_snoc:
  "calculateTotal (xs @ [x]) = fadd (calculateTotal xs) (subtotal x)"
  by (simp add: calculateTotal_def subtotal_def)

lemma exact_total_snoc: "exact_total (xs @ [x]) = exact_total xs + exact_subtotal x"
  by (simp add: exact_total_def)

lemma subtotal_exact:
  assumes "finite_item x" "is_double (exact_subtotal x)"
  shows "subtotal x = Fin (exact_subtotal x)"
proof -
  from assms(1) obtain q p where qp: "quantity_ordered x = Fin q" "unit_price x = Fin p"
    by (cases "quantity_ordered x"; cases "unit_price x") (simp_all add: finite_item_def)
  then have "exact_subtotal x = q * p" by (simp add: exact_subtotal_def)
  with assms(2) qp show ?thesis by (simp add: subtotal_def rnd_exact)
qed

lemma calculateTotal_no_rounding:
  assumes "\<forall>x \<in> set items. finite_item x \<and> is_double (exact_subtotal x)"
    and "\<forall>p \<in> set (prefixes items). is_double (exact_total p)"
  shows "calculateTotal items = Fin (exact_total items)"
  using assms
proof (induction items rule: rev_induct)
  case Nil
  show ?case by (simp add: calculateTotal_def exact_total_def)
next
  case (snoc x xs)
  from snoc.prems have IH: "calculateTotal xs = Fin (exact_total xs)"
    by (intro snoc.IH) auto
  from snoc.prems(1) have x: "subtotal x = Fin (exact_subtotal x)"
    by (intro subtotal_exact) simp_all
  from snoc.prems(2) have "is_double (exact_total (xs @ [x]))" by simp
  then show ?case
    by (simp add: calculateTotal_snoc IH x exact_total_snoc rnd_exact)
qed

lemma drift_items_total:
  "calculateTotal drift_items = Fin (1351079888211149 / 4503599627370496)"
  by code_simp

lemma drift_items_exact_total:
  "exact_total drift_items = 10808639105689191 / 36028797018963968"
  by code_simp

text \<open>
  C5, as stated, fails: the form computes in binary floating point. For two items of
  quantity \<open>1\<close> priced \<open>0.1\<close> and \<open>0.2\<close> the computed total is
  \<open>0.30000000000000004\<close> (the double \<open>1351079888211149 / 2\<^sup>5\<^sup>2\<close>), which is neither
  the exact sum of quantity times unit price over the stored values nor three tenths.
\<close>

theorem calculateTotal_drift_counterexample:
  "calculateTotal drift_items = Fin (1351079888211149 / 4503599627370496)
   \<and> calculateTotal drift_items \<noteq> Fin (exact_total drift_items)
   \<and> calculateTotal drift_items \<noteq> Fin (3 / 10)"
  by (simp add: drift_items_total drift_items_exact_total)

text \<open>
  C5, amended. The total is computed in IEEE 754 binary64 arithmetic. It equals the exact
  sum of quantity times unit price whenever no operation has to round: every quantity
  and unit price is finite, every product quantity times unit price is exactly
  representable as a double, and so is every running total (the exact total of every
  prefix of the list).
\<close>

theorem calculateTotal_exact_when_representable:
  assumes "\<forall>x \<in> set items. finite_item x \<and> is_double (exact_subtotal x)"
    and "\<forall>p \<in> set (prefixes items). is_double (exact_total p)"
  shows "calculateTotal items = Fin (exact_total items)"
  using assms by (rule calculateTotal_no_rounding)

theorem calculateTotal_exact_when_representable_witness:
  "calculateTotal dyadic_items = Fin (513 / 2)"
proof -
  have d0: "is_double 0" using is_doubleI [of 0 0] by simp
  have d255: "is_double 255" using is_doubleI [of 255 0] by simp
  have d32: "is_double (3 / 2)" using is_doubleI [of 3 "- 1"] by simp
  have d5132: "is_double (513 / 2)" using is_doubleI [of 513 "- 1"] by simp
  have items: "\<forall>x \<in> set dyadic_items. finite_item x \<and> is_double (exact_subtotal x)"
    using d255 d32 by (simp add: dyadic_items_def finite_item_def exact_subtotal_def)
  have run: "\<forall>p \<in> set (prefixes dyadic_items). is_double (exact_total p)"
    using d0 d255 d5132 by (simp add: dyadic_items_def exact_total_def exact_subtotal_def)
  have "exact_total dyadic_items = 513 / 2"
    by (simp add: dyadic_items_def exact_total_def exact_subtotal_def)
  with calculateTotal_exact_when_representable [OF items run] show ?thesis by simp
qed

lemma fadd_not_finite:
  "\<not> is_finite a \<or> \<not> is_finite b \<Longrightarrow> \<not> is_finite (fadd a b)"
  by (cases a; cases b) simp_all

lemma calculateTotal_not_finite:
  "\<exists>x \<in> set items. \<not> is_finite (subtotal x) \<Longrightarrow> \<not> is_finite (calculateTotal items)"
proof (induction items rule: rev_induct)
  case Nil
  then show ?case by simp
next
  case (snoc x xs)
  then have "\<not> is_finite (calculateTotal xs) \<or> \<not> is_finite (subtotal x)" by auto
  then show ?case unfolding calculateTotal_snoc by (rule fadd_not_finite)
qed

lemma calculateTotal_sum_of_values:
  assumes "map subtotal items = map Fin vs"
    and "\<forall>p \<in> set (prefixes vs). is_double (sum_list p)"
  shows "calculateTotal items = Fin (sum_list vs)"
  using assms
proof (induction items arbitrary: vs rule: rev_induct)
  case Nil
  then show ?case by (simp add: calculateTotal_def)
next
  case (snoc x xs)
  from snoc.prems(1) obtain ws v where vs: "vs = ws @ [v]"
    and ws: "map subtotal xs = map Fin ws" and v: "subtotal x = Fin v"
    by (cases vs rule: rev_cases) auto
  from snoc.prems(2) have "\<forall>p \<in> set (prefixes ws). is_double (sum_list p)"
    by (simp add: vs)
  with ws have IH: "calculateTotal xs = Fin (sum_list ws)" by (rule snoc.IH)
  from snoc.prems(2) have "is_double (sum_list (ws @ [v]))" by (simp add: vs)
  then show ?case
    by (simp add: calculateTotal_snoc IH v vs rnd_exact)
qed

lemma fadd_NaN: "a = NaN \<or> b = NaN \<Longrightarrow> fadd a b = NaN"
  by (cases a; cases b) simp_all

lemma calculateTotal_NaN:
  "\<exists>x \<in> set items. subtotal x = NaN \<Longrightarrow> calculateTotal items = NaN"
proof (induction items rule: rev_induct)
  case Nil
  then show ?case by simp
next
  case (snoc x xs)
  then have "calculateTotal xs = NaN \<or> subtotal x = NaN" by auto
  then show ?case unfolding calculateTotal_snoc by (rule fadd_NaN)
qed

lemma scenario_items_total: "calculateTotal scenario_items = Fin 150"
  by code_simp

lemma rounding_items_values:
  "map subtotal rounding_items
     = [Fin (6305039478318695 / 9007199254740992), Fin (3602879701896397 / 18014398509481984)]"
  "calculateTotal rounding_items = Fin (4053239664633447 / 4503599627370496)"
  "map exact_subtotal rounding_items
     = [7 * (3602879701896397 / 36028797018963968), 3602879701896397 / 18014398509481984]"
  by code_simp+

lemma fmul_finite:
  assumes "fmul a b = Fin v"
  obtains x y where "a = Fin x" "b = Fin y" "rnd (x * y) = Fin v"
  using assms by (cases a; cases b) (auto split: if_splits)

lemma fadd_finite:
  assumes "fadd a b = Fin v"
  obtains x y where "a = Fin x" "b = Fin y" "rnd (x + y) = Fin v"
  using assms by (cases a; cases b) auto

lemma subtotal_error:
  assumes "subtotal x = Fin v"
  shows "finite_item x \<and> \<bar>v - exact_subtotal x\<bar> \<le> max (\<bar>exact_subtotal x\<bar> / 2 ^ 53) (1 / 2 ^ 1075)"
proof -
  from assms obtain q p where qp: "quantity_ordered x = Fin q" "unit_price x = Fin p"
    and r: "rnd (q * p) = Fin v"
    unfolding subtotal_def by (rule fmul_finite)
  from qp have "exact_subtotal x = q * p" "finite_item x"
    by (simp_all add: exact_subtotal_def finite_item_def)
  with rnd_error [OF r] show ?thesis by simp
qed

lemma calculateTotal_step_error:
  assumes "calculateTotal (items @ [x]) = Fin t'"
  shows "\<exists>t v. calculateTotal items = Fin t \<and> subtotal x = Fin v
           \<and> \<bar>t' - (t + v)\<bar> \<le> max (\<bar>t + v\<bar> / 2 ^ 53) (1 / 2 ^ 1075)"
proof -
  from assms have "fadd (calculateTotal items) (subtotal x) = Fin t'"
    by (simp add: calculateTotal_snoc)
  then obtain t v where "calculateTotal items = Fin t" "subtotal x = Fin v"
    and "rnd (t + v) = Fin t'"
    by (rule fadd_finite)
  with rnd_error [of "t + v" t'] show ?thesis by blast
qed


lemma rounding_items_parts:
  "calculateTotal [hd rounding_items] = Fin (6305039478318695 / 9007199254740992)"
  "subtotal (last rounding_items) = Fin (3602879701896397 / 18014398509481984)"
  by code_simp+

text \<open>
  C6, as stated, fails: the sum and the product are those of binary64 numbers, which
  round. For seven units at \<open>0.1\<close> and one unit at \<open>0.2\<close> the first subtotal is
  \<open>0.7000000000000001\<close>, which is not seven times the unit price, and the total is
  \<open>0.9000000000000001\<close>: neither the sum of the two subtotals, nor the sum of quantity
  times unit price over the items, nor nine tenths.
\<close>

theorem calculateTotal_rounding_counterexample:
  "map subtotal rounding_items
     = [Fin (6305039478318695 / 9007199254740992), Fin (3602879701896397 / 18014398509481984)]
   \<and> calculateTotal rounding_items = Fin (4053239664633447 / 4503599627370496)
   \<and> calculateTotal rounding_items
       \<noteq> Fin (6305039478318695 / 9007199254740992 + 3602879701896397 / 18014398509481984)
   \<and> map exact_subtotal rounding_items
       = [7 * (3602879701896397 / 36028797018963968), 3602879701896397 / 18014398509481984]
   \<and> subtotal (hd rounding_items) \<noteq> Fin (exact_subtotal (hd rounding_items))
   \<and> calculateTotal rounding_items \<noteq> Fin (exact_total rounding_items)
   \<and> calculateTotal rounding_items \<noteq> Fin (9 / 10)"
proof -
  have hd: "subtotal (hd rounding_items) = hd (map subtotal rounding_items)"
    "exact_subtotal (hd rounding_items) = hd (map exact_subtotal rounding_items)"
    by (simp_all add: rounding_items_def)
  show ?thesis
    unfolding hd exact_total_def rounding_items_values by simp
qed

text \<open>
  C6, amended. The total is the sum of the item subtotals taken from left to right in
  binary64 arithmetic, each subtotal being the binary64 product of quantity ordered and
  unit price. Each operation rounds: a finite subtotal differs from quantity times unit
  price, and a finite running total from the exact sum of the total before and the
  subtotal added, by at most one part in \<open>2\<^sup>5\<^sup>3\<close> (or by \<open>2\<close> to the \<open>-1075\<close>, for
  the smallest values). A subtotal is exactly quantity times unit price when both are
  finite and their product is representable as a double. The total is exactly the sum of
  the subtotals when these are finite and every running sum of them is representable. A
  subtotal that is \<open>NaN\<close> makes the total \<open>NaN\<close>, and a subtotal that is not finite
  makes the total not finite. For the items (quantity 10 at 5) and (quantity 5 at 20) the
  total is exactly 150.
\<close>

theorem calculateTotal_sum_of_subtotals:
  "(subtotal x = Fin v \<longrightarrow>
      finite_item x
      \<and> \<bar>v - exact_subtotal x\<bar> \<le> max (\<bar>exact_subtotal x\<bar> / 2 ^ 53) (1 / 2 ^ 1075))
   \<and> (calculateTotal (items @ [x]) = Fin t' \<longrightarrow>
        (\<exists>t v. calculateTotal items = Fin t \<and> subtotal x = Fin v
           \<and> \<bar>t' - (t + v)\<bar> \<le> max (\<bar>t + v\<bar> / 2 ^ 53) (1 / 2 ^ 1075)))
   \<and> (finite_item x \<and> is_double (exact_subtotal x) \<longrightarrow> subtotal x = Fin (exact_subtotal x))
   \<and> (map subtotal items = map Fin vs \<and> (\<forall>p \<in> set (prefixes vs). is_double (sum_list p)) \<longrightarrow>
        calculateTotal items = Fin (sum_list vs))
   \<and> ((\<exists>y \<in> set items. subtotal y = NaN) \<longrightarrow> calculateTotal items = NaN)
   \<and> ((\<exists>y \<in> set items. \<not> is_finite (subtotal y)) \<longrightarrow> \<not> is_finite (calculateTotal items))
   \<and> calculateTotal scenario_items = Fin 150"
  using subtotal_error [of x v] calculateTotal_step_error [of items x t']
    subtotal_exact [of x] calculateTotal_sum_of_values [of items vs]
    calculateTotal_NaN [of items] calculateTotal_not_finite [of items] scenario_items_total
  by blast

theorem calculateTotal_sum_of_subtotals_witness:
  "map subtotal scenario_items = [Fin 50, Fin 100]
   \<and> calculateTotal scenario_items = Fin (50 + 100)
   \<and> calculateTotal (scenario_items @ [unparsed_item]) = NaN
   \<and> \<not> is_finite (calculateTotal (unparsed_item # scenario_items))
   \<and> (\<exists>v. subtotal (hd rounding_items) = Fin v \<and> v \<noteq> exact_subtotal (hd rounding_items)
         \<and> \<bar>v - exact_subtotal (hd rounding_items)\<bar>
             \<le> max (\<bar>exact_subtotal (hd rounding_items)\<bar> / 2 ^ 53) (1 / 2 ^ 1075))
   \<and> (\<exists>t v t'. calculateTotal [hd rounding_items] = Fin t
         \<and> subtotal (last rounding_items) = Fin v
         \<and> calculateTotal rounding_items = Fin t' \<and> t' \<noteq> t + v
         \<and> \<bar>t' - (t + v)\<bar> \<le> max (\<bar>t + v\<bar> / 2 ^ 53) (1 / 2 ^ 1075))"
proof -
  have d0: "is_double 0" using is_doubleI [of 0 0] by simp
  have d50: "is_double 50" using is_doubleI [of 50 0] by simp
  have d100: "is_double 100" using is_doubleI [of 100 0] by simp
  have d150: "is_double 150" using is_doubleI [of 150 0] by simp
  have A: "finite_item (scenario_items ! 0) \<and> is_double (exact_subtotal (scenario_items ! 0))"
    "exact_subtotal (scenario_items ! 0) = 50"
    using d50 by (simp_all add: scenario_items_def finite_item_def exact_subtotal_def)
  have B: "finite_item (scenario_items ! 1) \<and> is_double (exact_subtotal (scenario_items ! 1))"
    "exact_subtotal (scenario_items ! 1) = 100"
    using d100 by (simp_all add: scenario_items_def finite_item_def exact_subtotal_def)
  have items: "scenario_items = [scenario_items ! 0, scenario_items ! 1]"
    by (simp add: scenario_items_def)
  have subs: "map subtotal scenario_items = map Fin [50, 100]"
    using calculateTotal_sum_of_subtotals [of "scenario_items ! 0"] A
      calculateTotal_sum_of_subtotals [of "scenario_items ! 1"] B
    by (subst items) simp
  have run: "\<forall>p \<in> set (prefixes [50, 100 :: rat]). is_double (sum_list p)"
    using d0 d50 d150 by simp
  have nan: "subtotal unparsed_item = NaN"
    by (simp add: subtotal_def unparsed_item_def)
  from calculateTotal_sum_of_subtotals [where items = scenario_items and vs = "[50, 100]"]
    subs run
  have total: "calculateTotal scenario_items = Fin (50 + 100)" by simp
  from calculateTotal_sum_of_subtotals [where items = "scenario_items @ [unparsed_item]"] nan
  have t1: "calculateTotal (scenario_items @ [unparsed_item]) = NaN" by simp
  from calculateTotal_sum_of_subtotals [where items = "unparsed_item # scenario_items"] nan
  have t2: "\<not> is_finite (calculateTotal (unparsed_item # scenario_items))" by simp
  have split: "rounding_items = [hd rounding_items] @ [last rounding_items]"
    by (simp add: rounding_items_def)
  have first: "subtotal (hd rounding_items) = Fin (6305039478318695 / 9007199254740992)"
    using rounding_items_values(1) by (subst (asm) split) simp
  have exact: "exact_subtotal (hd rounding_items) = 7 * (3602879701896397 / 36028797018963968)"
    using rounding_items_values(3) by (subst (asm) split) simp
  from calculateTotal_sum_of_subtotals
    [where x = "hd rounding_items" and v = "6305039478318695 / 9007199254740992",
      THEN conjunct1, THEN mp, OF first, THEN conjunct2]
  have e1: "\<exists>v. subtotal (hd rounding_items) = Fin v \<and> v \<noteq> exact_subtotal (hd rounding_items)
         \<and> \<bar>v - exact_subtotal (hd rounding_items)\<bar>
             \<le> max (\<bar>exact_subtotal (hd rounding_items)\<bar> / 2 ^ 53) (1 / 2 ^ 1075)"
    using first exact by (intro exI [of _ "6305039478318695 / 9007199254740992"] conjI) simp_all
  have whole: "calculateTotal ([hd rounding_items] @ [last rounding_items])
      = Fin (4053239664633447 / 4503599627370496)"
    using rounding_items_values(2) by (subst (asm) split) simp
  from calculateTotal_sum_of_subtotals
    [where items = "[hd rounding_items]" and x = "last rounding_items"
      and t' = "4053239664633447 / 4503599627370496",
      THEN conjunct2, THEN conjunct1, THEN mp, OF whole]
  obtain t v where tv: "calculateTotal [hd rounding_items] = Fin t"
      "subtotal (last rounding_items) = Fin v"
    and bound: "\<bar>4053239664633447 / 4503599627370496 - (t + v)\<bar>
        \<le> max (\<bar>t + v\<bar> / 2 ^ 53) (1 / 2 ^ 1075)"
    by blast
  have t: "t = 6305039478318695 / 9007199254740992"
    using tv(1) rounding_items_parts(1) by simp
  have v: "v = 3602879701896397 / 18014398509481984"
    using tv(2) rounding_items_parts(2) by simp
  have "4053239664633447 / 4503599627370496 \<noteq> t + v"
    unfolding t v by simp
  with tv bound rounding_items_values(2)
  have e2: "\<exists>t v t'. calculateTotal [hd rounding_items] = Fin t
         \<and> subtotal (last rounding_items) = Fin v
         \<and> calculateTotal rounding_items = Fin t' \<and> t' \<noteq> t + v
         \<and> \<bar>t' - (t + v)\<bar> \<le> max (\<bar>t + v\<bar> / 2 ^ 53) (1 / 2 ^ 1075)"
    by blast
  from subs total t1 t2 e1 e2 show ?thesis by simp
qed

chapter \<open>Properties of the order-fulfilment core\<close>

section \<open>Workflow\<close>

lemma can_transition_simps:
  "can_transition CREATED t \<longleftrightarrow> t = APPROVED \<or> t = CANCELLED"
  "can_transition APPROVED t \<longleftrightarrow> t = ALLOCATED \<or> t = CANCELLED"
  "can_transition ALLOCATED t \<longleftrightarrow> t = PICKING \<or> t = CANCELLED"
  "can_transition PICKING t \<longleftrightarrow> t = PACKING \<or> t = CANCELLED"
  "can_transition PACKING t \<longleftrightarrow> t = SHIPPED \<or> t = CANCELLED"
  "can_transition SHIPPED t \<longleftrightarrow> t = DELIVERED \<or> t = CANCELLED"
  "can_transition DELIVERED t \<longleftrightarrow> False"
  "can_transition CANCELLED t \<longleftrightarrow> False"
  by (simp_all add: can_transition_def transition_table_def)

lemma can_transition_stage: "can_transition s t \<Longrightarrow> stage s < stage t"
  by (cases s) (auto simp: can_transition_simps)

lemma transition_table_total: "map_of transition_table s \<noteq> None"
  by (cases s) (simp_all add: transition_table_def)

lemma can_transition_acyclic: "acyclic {(s, t). can_transition s t}"
proof (rule acyclicI_order [where f = "\<lambda>s. 7 - stage s"])
  fix a b
  assume "(a, b) \<in> {(s, t). can_transition s t}"
  then have "stage a < stage b" by (simp add: can_transition_stage)
  moreover have "stage b \<le> 7" by (cases b) simp_all
  ultimately show "7 - stage b < 7 - stage a" by simp
qed

text \<open>
  C4. The transition table has a row for every status, so \<open>can_transition\<close> is decided
  by the table for every pair of statuses. From each of the six non-terminal statuses
  the step to \<open>CANCELLED\<close> is legal. \<open>DELIVERED\<close> and \<open>CANCELLED\<close> have no outgoing
  transition. The relation has no cycle: every legal step moves strictly forward in the
  lifecycle, and \<open>CANCELLED\<close>, the common sink, has no way out.
\<close>

theorem workflow_table:
  "(\<forall>s. map_of transition_table s \<noteq> None)
   \<and> (\<forall>s. \<not> terminal s \<longrightarrow> can_transition s CANCELLED)
   \<and> (\<forall>s. terminal s \<longleftrightarrow> s = DELIVERED \<or> s = CANCELLED)
   \<and> (\<forall>t. \<not> can_transition DELIVERED t \<and> \<not> can_transition CANCELLED t)
   \<and> (\<forall>s t. can_transition s t \<longrightarrow> stage s < stage t)
   \<and> acyclic {(s, t). can_transition s t}"
proof -
  have cancel: "\<not> terminal s \<Longrightarrow> can_transition s CANCELLED" for s
    by (cases s) (simp_all add: terminal_def can_transition_simps)
  show ?thesis
    using cancel can_transition_stage can_transition_acyclic transition_table_total
    by (simp add: terminal_def can_transition_simps)
qed

theorem workflow_table_witness:
  "can_transition PICKING CANCELLED \<and> stage PICKING < stage CANCELLED
   \<and> \<not> can_transition DELIVERED CREATED
   \<and> (PICKING, PICKING) \<notin> {(s, t). can_transition s t}\<^sup>+"
proof -
  have "\<not> terminal PICKING" by (simp add: terminal_def)
  with workflow_table have c: "can_transition PICKING CANCELLED" by blast
  from workflow_table have "acyclic {(s, t). can_transition s t}" by blast
  then have "(PICKING, PICKING) \<notin> {(s, t). can_transition s t}\<^sup>+"
    by (simp add: acyclic_def)
  moreover from workflow_table have "\<not> can_transition DELIVERED CREATED" by blast
  moreover from workflow_table c have "stage PICKING < stage CANCELLED" by blast
  ultimately show ?thesis using c by simp
qed

section \<open>OrderService.create_order\<close>

lemma make_item_ok:
  "well_formed_item x \<Longrightarrow>
     \<exists>it. make_item x = Inr it
       \<and> (Some (oi_sku it), Some (oi_quantity it), Some (oi_unit_price it), oi_unit_weight it)
           = (in_sku x, in_quantity x, in_unit_price x, in_unit_weight x)
       \<and> 0 < oi_quantity it"
  by (auto simp: well_formed_item_def make_item_def split: option.splits)

lemma make_item_bad: "\<not> well_formed_item x \<Longrightarrow> make_item x = Inl ValidationError"
  by (auto simp: well_formed_item_def make_item_def split: option.splits)

lemma make_item_error: "make_item x = Inl e \<Longrightarrow> e = ValidationError"
  by (auto simp: make_item_def split: option.splits if_splits)

lemma make_items_error: "make_items xs = Inl e \<Longrightarrow> e = ValidationError"
  by (induction xs) (auto split: sum.splits dest: make_item_error)

lemma make_items_bad: "\<not> list_all well_formed_item xs \<Longrightarrow> make_items xs = Inl ValidationError"
proof (induction xs)
  case Nil
  then show ?case by simp
next
  case (Cons x xs)
  show ?case
  proof (cases "well_formed_item x")
    case True
    with Cons have "make_items xs = Inl ValidationError" by simp
    then show ?thesis by (auto split: sum.splits dest: make_item_error)
  next
    case False
    then show ?thesis by (simp add: make_item_bad)
  qed
qed

lemma make_items_ok:
  "list_all well_formed_item xs \<Longrightarrow>
     \<exists>its. make_items xs = Inr its
       \<and> map (\<lambda>it. (Some (oi_sku it), Some (oi_quantity it), Some (oi_unit_price it),
                     oi_unit_weight it)) its
           = map (\<lambda>x. (in_sku x, in_quantity x, in_unit_price x, in_unit_weight x)) xs
       \<and> (\<forall>it \<in> set its. 0 < oi_quantity it)"
proof (induction xs)
  case Nil
  then show ?case by simp
next
  case (Cons x xs)
  then obtain its where its: "make_items xs = Inr its"
    "map (\<lambda>it. (Some (oi_sku it), Some (oi_quantity it), Some (oi_unit_price it),
                     oi_unit_weight it)) its
           = map (\<lambda>x. (in_sku x, in_quantity x, in_unit_price x, in_unit_weight x)) xs"
    "\<forall>it \<in> set its. 0 < oi_quantity it"
    by auto
  from Cons.prems obtain it where it: "make_item x = Inr it"
    "(Some (oi_sku it), Some (oi_quantity it), Some (oi_unit_price it), oi_unit_weight it)
           = (in_sku x, in_quantity x, in_unit_price x, in_unit_weight x)" "0 < oi_quantity it"
    using make_item_ok [of x] by auto
  show ?case using its it by simp
qed

text \<open>
  C7. When some submitted item lacks its sku, its quantity or its unit price, or has a
  quantity that is not greater than 0, \<open>create_order\<close> fails with
  \<open>ValidationError\<close> and the store is as before: no order is persisted. On a
  well-formed input it persists, under a new id, an order in status \<open>CREATED\<close>
  whose items are the submitted ones.
\<close>

theorem create_order_validation:
  "(\<not> list_all well_formed_item inputs \<longrightarrow>
      create_order wh prio inputs st = (Inl ValidationError, st))
   \<and> (list_all well_formed_item inputs \<longrightarrow>
        (\<exists>its. create_order wh prio inputs st =
            (Inr (next_order_id st),
             st\<lparr>orders := (orders st)(next_order_id st \<mapsto> new_order (next_order_id st) wh prio its),
                next_order_id := Suc (next_order_id st)\<rparr>)
          \<and> status (new_order (next_order_id st) wh prio its) = CREATED
          \<and> order_items (new_order (next_order_id st) wh prio its) = its
          \<and> map (\<lambda>it. (Some (oi_sku it), Some (oi_quantity it), Some (oi_unit_price it),
                        oi_unit_weight it)) its
              = map (\<lambda>x. (in_sku x, in_quantity x, in_unit_price x, in_unit_weight x)) inputs))"
proof (intro conjI impI)
  assume "\<not> list_all well_formed_item inputs"
  then show "create_order wh prio inputs st = (Inl ValidationError, st)"
    by (simp add: create_order_def make_items_bad)
next
  assume "list_all well_formed_item inputs"
  from make_items_ok [OF this] obtain its where its: "make_items inputs = Inr its"
    "map (\<lambda>it. (Some (oi_sku it), Some (oi_quantity it), Some (oi_unit_price it),
                     oi_unit_weight it)) its
           = map (\<lambda>x. (in_sku x, in_quantity x, in_unit_price x, in_unit_weight x)) inputs"
    by auto
  then show "\<exists>its. create_order wh prio inputs st =
            (Inr (next_order_id st),
             st\<lparr>orders := (orders st)(next_order_id st \<mapsto> new_order (next_order_id st) wh prio its),
                next_order_id := Suc (next_order_id st)\<rparr>)
          \<and> status (new_order (next_order_id st) wh prio its) = CREATED
          \<and> order_items (new_order (next_order_id st) wh prio its) = its
          \<and> map (\<lambda>it. (Some (oi_sku it), Some (oi_quantity it), Some (oi_unit_price it),
                        oi_unit_weight it)) its
              = map (\<lambda>x. (in_sku x, in_quantity x, in_unit_price x, in_unit_weight x)) inputs"
    by (intro exI [of _ its]) (simp add: create_order_def new_order_def)
qed

theorem create_order_validation_witness:
  "create_order 1 ''MEDIUM'' [input_A, input_B\<lparr>in_quantity := Some 0\<rparr>] empty_store
     = (Inl ValidationError, empty_store)
   \<and> create_order 1 ''MEDIUM'' [input_A, input_B\<lparr>in_unit_price := None\<rparr>] empty_store
     = (Inl ValidationError, empty_store)
   \<and> fst (create_order 1 ''MEDIUM'' [input_A, input_B] empty_store) = Inr 0
   \<and> orders (snd (create_order 1 ''MEDIUM'' [input_A, input_B] empty_store)) 0 = Some order_AB
   \<and> status order_AB = CREATED \<and> total_amount order_AB = 150"
proof -
  have bad: "\<not> list_all well_formed_item [input_A, input_B\<lparr>in_quantity := Some 0\<rparr>]"
    "\<not> list_all well_formed_item [input_A, input_B\<lparr>in_unit_price := None\<rparr>]"
    by (simp_all add: well_formed_item_def input_A_def input_B_def)
  have good: "list_all well_formed_item [input_A, input_B]"
    by (simp add: well_formed_item_def input_A_def input_B_def)
  have its: "make_items [input_A, input_B] = Inr (order_items order_AB)"
    by (simp add: make_item_def input_A_def input_B_def order_AB_def new_order_def)
  have total: "total_amount order_AB = 150"
    by (simp add: order_AB_def new_order_def item_subtotal_def)
  from create_order_validation [of "[input_A, input_B\<lparr>in_quantity := Some 0\<rparr>]" 1 "''MEDIUM''" empty_store]
    create_order_validation [of "[input_A, input_B\<lparr>in_unit_price := None\<rparr>]" 1 "''MEDIUM''" empty_store]
    create_order_validation [of "[input_A, input_B]" 1 "''MEDIUM''" empty_store]
    bad good
  show ?thesis
    using its total
    by (auto simp: create_order_def empty_store_def order_AB_def new_order_def)
qed



section \<open>PackingService.add_item\<close>












section \<open>OrderService.cancel\<close>

lemma release_order_allocations:
  "allocations (fst (release_order ad iv f)) = map mark_released (allocations f)"
  by (simp add: release_order_def split: prod.splits)

lemma release_order_frame:
  "status (fst (release_order ad iv f)) = status f"
  "order_items (fst (release_order ad iv f)) = order_items f"
  "picking_tasks (fst (release_order ad iv f)) = picking_tasks f"
  "packing_tasks (fst (release_order ad iv f)) = packing_tasks f"
  "shipments (fst (release_order ad iv f)) = shipments f"
  by (simp_all add: release_order_def split: prod.splits)

lemma cancel_non_terminal:
  assumes "\<not> terminal (status f)"
  shows "\<exists>f' iv'. cancel ad iv reason f = (Inr f', iv')
           \<and> status f' = CANCELLED
           \<and> allocations f' = map mark_released (allocations f)"
proof -
  from assms have nc: "status f \<noteq> CANCELLED" and "can_transition (status f) CANCELLED"
    by (cases "status f"; simp add: terminal_def can_transition_def transition_table_def)+
  then have v: "validate_transition (status f) CANCELLED = Inr ()"
    by (simp add: validate_transition_def)
  obtain f1 iv1 where r: "release_order ad iv f = (f1, iv1)" by (cases "release_order ad iv f")
  with release_order_allocations [of ad iv f] have "allocations f1 = map mark_released (allocations f)"
    by simp
  then show ?thesis
    using nc v r by (simp add: cancel_def audit_def)
qed

lemma cancel_cancelled:
  "status f = CANCELLED \<Longrightarrow> cancel ad iv reason f = (Inr f, iv)"
  by (simp add: cancel_def)

lemma active_quantity_released:
  "active_quantity (f\<lparr>allocations := map mark_released xs\<rparr>) i = 0"
  by (simp add: active_quantity_def mark_released_def filter_map o_def)

lemma call_cancel_twice:
  assumes "orders st oid = Some f" "\<not> terminal (status f)"
  shows "\<exists>st1. call ad oid (Cancel reason) st = (Inr (), st1)
           \<and> call ad oid (Cancel reason') st1 = (Inr (), st1)"
proof -
  from cancel_non_terminal [OF assms(2), of ad "inventory st" reason]
  obtain f' iv' where c: "cancel ad (inventory st) reason f = (Inr f', iv')" "status f' = CANCELLED"
    by blast
  let ?st1 = "st\<lparr>orders := (orders st)(oid \<mapsto> f'), inventory := iv'\<rparr>"
  have 1: "call ad oid (Cancel reason) st = (Inr (), ?st1)"
    using assms(1) c(1) by (simp add: call_def)
  have 2: "call ad oid (Cancel reason') ?st1 = (Inr (), ?st1)"
    using cancel_cancelled [OF c(2), of ad iv' reason'] by (simp add: call_def)
  from 1 2 show ?thesis by blast
qed

text \<open>
  C3. \<open>cancel\<close> on an order in a non-terminal status succeeds and leaves the order
  \<open>CANCELLED\<close> with no ACTIVE allocation (the ACTIVE quantity of every item is 0),
  whatever the adapter answers to the releases. \<open>cancel\<close> on an order already
  \<open>CANCELLED\<close> succeeds and returns the aggregate and the inventory unchanged: the same
  end state, and nothing added to the audit log. So a second \<open>cancel\<close>, through the
  store as well, succeeds and changes nothing.
\<close>

theorem cancel_releases_and_is_idempotent:
  "(\<not> terminal (status f) \<longrightarrow>
      (\<exists>f' iv'. cancel ad iv reason f = (Inr f', iv')
         \<and> status f' = CANCELLED
         \<and> (\<forall>a \<in> set (allocations f'). al_status a \<noteq> ACTIVE)
         \<and> (\<forall>i. active_quantity f' i = 0)
         \<and> cancel ad iv' reason' f' = (Inr f', iv')))
   \<and> (status f = CANCELLED \<longrightarrow> cancel ad iv reason f = (Inr f, iv))
   \<and> (orders st oid = Some f \<and> \<not> terminal (status f) \<longrightarrow>
        (\<exists>st1. call ad oid (Cancel reason) st = (Inr (), st1)
           \<and> call ad oid (Cancel reason') st1 = (Inr (), st1)))"
proof (intro conjI impI)
  assume "\<not> terminal (status f)"
  from cancel_non_terminal [OF this, of ad iv reason]
  obtain f' iv' where c: "cancel ad iv reason f = (Inr f', iv')" "status f' = CANCELLED"
    "allocations f' = map mark_released (allocations f)" by blast
  have none: "\<forall>a \<in> set (allocations f'). al_status a \<noteq> ACTIVE"
    by (simp add: c(3) mark_released_def)
  have zero: "\<forall>i. active_quantity f' i = 0"
    by (simp add: active_quantity_def c(3) mark_released_def filter_map o_def)
  from c none zero cancel_cancelled [OF c(2), of ad iv' reason']
  show "\<exists>f' iv'. cancel ad iv reason f = (Inr f', iv')
         \<and> status f' = CANCELLED
         \<and> (\<forall>a \<in> set (allocations f'). al_status a \<noteq> ACTIVE)
         \<and> (\<forall>i. active_quantity f' i = 0)
         \<and> cancel ad iv' reason' f' = (Inr f', iv')"
    by blast
next
  assume "status f = CANCELLED"
  then show "cancel ad iv reason f = (Inr f, iv)" by (rule cancel_cancelled)
next
  assume "orders st oid = Some f \<and> \<not> terminal (status f)"
  then show "\<exists>st1. call ad oid (Cancel reason) st = (Inr (), st1)
           \<and> call ad oid (Cancel reason') st1 = (Inr (), st1)"
    using call_cancel_twice by blast
qed

theorem cancel_releases_and_is_idempotent_witness:
  "\<exists>f' iv'. cancel (failing_adapter stock_report) () ''customer request'' order_in_packing
               = (Inr f', iv')
     \<and> status f' = CANCELLED
     \<and> active_quantity order_in_packing 0 = 10 \<and> active_quantity f' 0 = 0
     \<and> active_quantity f' 1 = 0
     \<and> cancel (failing_adapter stock_report) iv' ''again'' f' = (Inr f', iv')"
proof -
  have nt: "\<not> terminal (status order_in_packing)"
    by (simp add: order_in_packing_def terminal_def)
  have before: "active_quantity order_in_packing 0 = 10"
    by (simp add: order_in_packing_def active_quantity_def)
  from cancel_releases_and_is_idempotent
    [of order_in_packing "failing_adapter stock_report" "()" "''customer request''" "''again''"]
    nt before
  show ?thesis by blast
qed

section \<open>AllocationService.allocate_order\<close>

lemma shortfalls_empty_iff:
  "shortfalls ad iv f = [] \<longleftrightarrow> \<not> list_ex (short ad iv f) [0..<length (order_items f)]"
  by (simp add: shortfalls_def filter_empty_conv list_ex_iff)



lemma split_across_nonpos: "remaining \<le> 0 \<Longrightarrow> split_across remaining locs = []"
  by (cases locs) auto

lemma split_across_sum:
  "0 \<le> remaining \<Longrightarrow> remaining \<le> sum_list (map snd locs) \<Longrightarrow>
     sum_list (map snd (split_across remaining locs)) = remaining"
proof (induction remaining locs rule: split_across.induct)
  case (1 remaining)
  then show ?case by simp
next
  case (2 remaining loc avail rest)
  show ?case
  proof (cases "remaining \<le> 0")
    case True
    with "2.prems" show ?thesis by simp
  next
    case False
    show ?thesis
    proof (cases "remaining \<le> avail")
      case True
      with False show ?thesis by (simp add: split_across_nonpos min_def)
    next
      case less: False
      have "sum_list (map snd (split_across (remaining - min avail remaining) rest))
              = remaining - min avail remaining"
        using False less "2.prems" by (intro "2.IH") (auto simp: min_def)
      with False show ?thesis by simp
    qed
  qed
qed

lemma sum_list_insort_key:
  "sum_list (map g (insort_key k x xs)) = (g x :: rat) + sum_list (map g xs)"
  by (induction xs) (simp_all add: algebra_simps)

lemma sum_list_sort_key: "sum_list (map g (sort_key k xs)) = (sum_list (map g xs) :: rat)"
  by (induction xs) (simp_all add: sum_list_insort_key)

lemma best_fit_sum:
  assumes "0 \<le> qty" "qty \<le> aggregate_available locs"
  shows "sum_list (map snd (best_fit qty locs)) = qty"
proof (cases "find (\<lambda>(loc, avail). qty \<le> avail) locs")
  case None
  have "sum_list (map snd (split_across qty (sort_key (\<lambda>(loc, avail). - avail) locs))) = qty"
    using assms by (intro split_across_sum) (simp_all add: sum_list_sort_key aggregate_available_def)
  with None show ?thesis by (simp add: best_fit_def)
next
  case (Some a)
  then show ?thesis by (cases a) (simp add: best_fit_def)
qed

lemma item_requests_item: "r \<in> set (item_requests ad iv f i) \<Longrightarrow> rq_item r = i"
  by (auto simp: item_requests_def)

lemma item_requests_sum:
  "sum_list (map rq_quantity (item_requests ad iv f i))
     = sum_list (map snd (best_fit (oi_quantity (order_items f ! i)) (availability ad iv f i)))"
  by (simp add: item_requests_def o_def case_prod_beta)

lemma filter_concat_upt:
  assumes "\<And>j r. r \<in> set (g j) \<Longrightarrow> key r = j"
  shows "filter (\<lambda>r. key r = i) (concat (map g [0..<n])) = (if i < n then g i else [])"
proof (induction n)
  case 0
  show ?case by simp
next
  case (Suc n)
  have other: "filter (\<lambda>r. key r = i) (g n) = (if i = n then g n else [])"
    using assms [of _ n] by (auto simp: filter_empty_conv filter_id_conv)
  show ?case using Suc other by (auto simp: less_Suc_eq)
qed

lemma reservation_plan_item:
  "filter (\<lambda>r. rq_item r = i) (reservation_plan ad iv f)
     = (if i < length (order_items f) then item_requests ad iv f i else [])"
  unfolding reservation_plan_def
  by (rule filter_concat_upt) (rule item_requests_item)

lemma reserve_all_rows:
  "reserve_all ad iv ref plan = (Some rows, iv') \<Longrightarrow>
     map (\<lambda>a. (al_item a, al_location a, al_quantity a)) rows
       = map (\<lambda>r. (rq_item r, rq_location r, rq_quantity r)) plan
     \<and> (\<forall>a \<in> set rows. al_status a = ACTIVE)"
proof (induction plan arbitrary: iv rows)
  case Nil
  then show ?case by simp
next
  case (Cons r rs)
  from Cons.prems obtain rid iv1 where r: "reserve ad iv (rq_sku r) (rq_quantity r) (rq_location r) ref = Some (rid, iv1)"
    by (auto split: option.splits)
  with Cons.prems obtain rows1 where rest: "reserve_all ad iv1 ref rs = (Some rows1, iv')"
    and rows: "rows = \<lparr>al_item = rq_item r, al_location = rq_location r,
                        al_quantity = rq_quantity r, al_reservation_id = rid,
                        al_status = ACTIVE\<rparr> # rows1"
    by (auto split: prod.splits option.splits)
  from Cons.IH [OF rest] show ?case by (simp add: rows)
qed

lemma rows_item_sum:
  assumes "map (\<lambda>a. (al_item a, al_location a, al_quantity a)) rows
       = map (\<lambda>r. (rq_item r, rq_location r, rq_quantity r)) plan"
  shows "sum_list (map al_quantity (filter (\<lambda>a. al_item a = i) rows))
       = sum_list (map rq_quantity (filter (\<lambda>r. rq_item r = i) plan))"
  using assms
proof (induction rows arbitrary: plan)
  case Nil
  then show ?case by simp
next
  case (Cons a rows)
  then obtain r rs where plan: "plan = r # rs" by (cases plan) auto
  with Cons.prems have "al_item a = rq_item r" "al_quantity a = rq_quantity r"
    and "map (\<lambda>a. (al_item a, al_location a, al_quantity a)) rows
       = map (\<lambda>r. (rq_item r, rq_location r, rq_quantity r)) rs"
    by simp_all
  with Cons.IH [of rs] show ?case by (simp add: plan)
qed


lemma allocate_order_success:
  assumes ns: "\<not> list_ex (short ad iv f) [0..<length (order_items f)]"
    and ok: "fst (reserve_all ad iv (order_id f) (reservation_plan ad iv f)) = Some rows"
  shows "fst (allocate_order ad iv f) = Inr (f\<lparr>allocations := allocations f @ rows\<rparr>)"
    and "map (\<lambda>a. (al_item a, al_location a, al_quantity a)) rows
          = map (\<lambda>r. (rq_item r, rq_location r, rq_quantity r)) (reservation_plan ad iv f)"
    and "\<forall>a \<in> set rows. al_status a = ACTIVE"
    and "\<forall>i < length (order_items f). 0 \<le> oi_quantity (order_items f ! i) \<longrightarrow>
           sum_list (map al_quantity (filter (\<lambda>a. al_item a = i) rows))
             = oi_quantity (order_items f ! i)"
    and "\<forall>i. length (order_items f) \<le> i \<longrightarrow> filter (\<lambda>a. al_item a = i) rows = []"
proof -
  obtain iv' where ra: "reserve_all ad iv (order_id f) (reservation_plan ad iv f) = (Some rows, iv')"
    using ok by (cases "reserve_all ad iv (order_id f) (reservation_plan ad iv f)") simp
  show "fst (allocate_order ad iv f) = Inr (f\<lparr>allocations := allocations f @ rows\<rparr>)"
    using ns ra by (simp add: allocate_order_def shortfalls_empty_iff)
  from reserve_all_rows [OF ra]
  show rows: "map (\<lambda>a. (al_item a, al_location a, al_quantity a)) rows
          = map (\<lambda>r. (rq_item r, rq_location r, rq_quantity r)) (reservation_plan ad iv f)"
    and "\<forall>a \<in> set rows. al_status a = ACTIVE" by simp_all
  show "\<forall>i < length (order_items f). 0 \<le> oi_quantity (order_items f ! i) \<longrightarrow>
           sum_list (map al_quantity (filter (\<lambda>a. al_item a = i) rows))
             = oi_quantity (order_items f ! i)"
  proof (intro allI impI)
    fix i assume i: "i < length (order_items f)" and pos: "0 \<le> oi_quantity (order_items f ! i)"
    from ns i have "\<not> short ad iv f i" by (simp add: list_ex_iff)
    then have enough: "oi_quantity (order_items f ! i) \<le> aggregate_available (availability ad iv f i)"
      by (simp add: short_def)
    show "sum_list (map al_quantity (filter (\<lambda>a. al_item a = i) rows)) = oi_quantity (order_items f ! i)"
      using i by (simp add: rows_item_sum [OF rows] reservation_plan_item item_requests_sum
          best_fit_sum [OF pos enough])
  qed
  show "\<forall>i. length (order_items f) \<le> i \<longrightarrow> filter (\<lambda>a. al_item a = i) rows = []"
  proof (intro allI impI)
    fix i assume "length (order_items f) \<le> i"
    then have "filter (\<lambda>r. rq_item r = i) (reservation_plan ad iv f) = []"
      by (simp add: reservation_plan_item)
    then have "\<forall>r \<in> set (reservation_plan ad iv f). rq_item r \<noteq> i"
      by (simp add: filter_empty_conv)
    moreover have "map al_item rows = map rq_item (reservation_plan ad iv f)"
      using arg_cong [OF rows, of "map fst"] by (simp add: o_def)
    then have "al_item ` set rows = rq_item ` set (reservation_plan ad iv f)"
      by (metis set_map)
    ultimately have "i \<notin> al_item ` set rows" by auto
    then show "filter (\<lambda>a. al_item a = i) rows = []"
      by (auto simp: filter_empty_conv)
  qed
qed








section \<open>The reconciliation of quantities\<close>

subsection \<open>Sums over updated lists\<close>

lemma map_update_same:
  "t < length xs \<Longrightarrow> g y = g (xs ! t) \<Longrightarrow> map g (xs[t := y]) = map g xs"
  by (simp add: list_eq_iff_nth_eq nth_list_update)

lemma sum_list_map_update:
  "t < length xs \<Longrightarrow>
     sum_list (map g (xs[t := y])) = sum_list (map g xs) - g (xs ! t) + (g y :: rat)"
proof (induction xs arbitrary: t)
  case Nil
  then show ?case by simp
next
  case (Cons x xs)
  then show ?case by (cases t) simp_all
qed

subsection \<open>What the quantities depend on\<close>

lemma audit_selectors [simp]:
  "order_id (audit e a d f) = order_id f"
  "status (audit e a d f) = status f"
  "order_items (audit e a d f) = order_items f"
  "allocations (audit e a d f) = allocations f"
  "picking_tasks (audit e a d f) = picking_tasks f"
  "packing_tasks (audit e a d f) = packing_tasks f"
  "shipments (audit e a d f) = shipments f"
  by (simp_all add: audit_def)

lemma active_quantity_cong:
  "allocations f' = allocations f \<Longrightarrow> active_quantity f' i = active_quantity f i"
  by (simp add: active_quantity_def)

lemma allocated_quantity_cong:
  "allocations f' = allocations f \<Longrightarrow> allocated_quantity f' i = allocated_quantity f i"
  by (simp add: allocated_quantity_def)

lemma picked_quantity_items:
  "picked_quantity f i =
     sum_list (map (\<lambda>ps. sum_list (map picked_value (filter (\<lambda>p. pi_item p = i) ps)))
       (map pt_items (picking_tasks f)))"
  by (simp add: picked_quantity_def task_picked_def [abs_def] o_def)

lemma expected_quantity_items:
  "expected_quantity f i =
     sum_list (map (\<lambda>ps. sum_list (map pi_expected (filter (\<lambda>p. pi_item p = i) ps)))
       (map pt_items (picking_tasks f)))"
  by (simp add: expected_quantity_def task_expected_def [abs_def] o_def)

lemma picked_quantity_cong:
  "map pt_items (picking_tasks f') = map pt_items (picking_tasks f) \<Longrightarrow>
     picked_quantity f' i = picked_quantity f i"
  by (simp only: picked_quantity_items)

lemma expected_quantity_cong:
  "map pt_items (picking_tasks f') = map pt_items (picking_tasks f) \<Longrightarrow>
     expected_quantity f' i = expected_quantity f i"
  by (simp only: expected_quantity_items)

lemma packed_quantity_cong:
  "packing_tasks f' = packing_tasks f \<Longrightarrow> packed_quantity f' i = packed_quantity f i"
  by (simp add: packed_quantity_def)

lemma can_transition_cases:
  assumes "can_transition s t"
  shows "s \<noteq> CANCELLED \<and> s \<noteq> DELIVERED \<and> t \<noteq> CREATED
         \<and> (t = APPROVED \<longrightarrow> s = CREATED) \<and> (t = ALLOCATED \<longrightarrow> s = APPROVED)
         \<and> (t = PICKING \<longrightarrow> s = ALLOCATED) \<and> (t = PACKING \<longrightarrow> s = PICKING)
         \<and> (t = SHIPPED \<longrightarrow> s = PACKING) \<and> (t = DELIVERED \<longrightarrow> s = SHIPPED)"
  using assms by (cases s; cases t; simp add: can_transition_def transition_table_def)

lemma validate_transition_Inr:
  "validate_transition s t = Inr u \<longleftrightarrow> can_transition s t"
  by (simp add: validate_transition_def)

lemma consistentD:
  assumes "consistent f"
  shows "\<And>it. it \<in> set (order_items f) \<Longrightarrow> 0 < oi_quantity it"
    and "status f = CREATED \<or> status f = APPROVED \<Longrightarrow> allocations f = []"
    and "status f = CREATED \<or> status f = APPROVED \<or> status f = ALLOCATED \<Longrightarrow>
          picking_tasks f = []"
    and "\<And>a. status f \<noteq> CANCELLED \<Longrightarrow> a \<in> set (allocations f) \<Longrightarrow> al_status a = ACTIVE"
    and "\<And>i. 0 \<le> active_quantity f i"
    and "\<And>ps p. ps \<in> set (map pt_items (picking_tasks f)) \<Longrightarrow> p \<in> set ps \<Longrightarrow>
           picked_value p \<le> pi_expected p"
    and "\<And>i. expected_quantity f i \<le> allocated_quantity f i"
    and "\<And>i. i < length (order_items f) \<Longrightarrow> active_quantity f i \<le> oi_quantity (order_items f ! i)"
    and "\<And>i. packed_quantity f i \<le> picked_quantity f i"
  using assms unfolding consistent_def by blast+

lemma consistentI:
  assumes "\<And>it. it \<in> set (order_items f) \<Longrightarrow> 0 < oi_quantity it"
    and "status f = CREATED \<or> status f = APPROVED \<Longrightarrow> allocations f = []"
    and "status f = CREATED \<or> status f = APPROVED \<or> status f = ALLOCATED \<Longrightarrow>
          picking_tasks f = []"
    and "\<And>a. status f \<noteq> CANCELLED \<Longrightarrow> a \<in> set (allocations f) \<Longrightarrow> al_status a = ACTIVE"
    and "\<And>i. 0 \<le> active_quantity f i"
    and "\<And>ps p. ps \<in> set (map pt_items (picking_tasks f)) \<Longrightarrow> p \<in> set ps \<Longrightarrow>
           picked_value p \<le> pi_expected p"
    and "\<And>i. expected_quantity f i \<le> allocated_quantity f i"
    and "\<And>i. i < length (order_items f) \<Longrightarrow> active_quantity f i \<le> oi_quantity (order_items f ! i)"
    and "\<And>i. packed_quantity f i \<le> picked_quantity f i"
  shows "consistent f"
  unfolding consistent_def using assms by blast

lemma consistent_frame:
  assumes c: "consistent f"
    and its: "order_items f' = order_items f"
    and al: "allocations f' = allocations f"
    and pk: "map pt_items (picking_tasks f') = map pt_items (picking_tasks f)"
    and pa: "\<And>i. packed_quantity f' i = packed_quantity f i"
    and st: "status f' = status f \<or> can_transition (status f) (status f')"
  shows "consistent f'"
proof (rule consistentI)
  note d = consistentD [OF c]
  have empty: "picking_tasks f = [] \<Longrightarrow> picking_tasks f' = []"
    using pk by (metis map_is_Nil_conv)
  from st have stat:
    "status f' = CREATED \<or> status f' = APPROVED \<Longrightarrow> status f = CREATED \<or> status f = APPROVED"
    "status f' = CREATED \<or> status f' = APPROVED \<or> status f' = ALLOCATED \<Longrightarrow>
       status f = CREATED \<or> status f = APPROVED \<or> status f = ALLOCATED"
    "status f' \<noteq> CANCELLED \<Longrightarrow> status f \<noteq> CANCELLED"
    using can_transition_cases [of "status f" "status f'"] by auto
  fix i
  show "\<And>it. it \<in> set (order_items f') \<Longrightarrow> 0 < oi_quantity it"
    using d(1) by (simp add: its)
  show "status f' = CREATED \<or> status f' = APPROVED \<Longrightarrow> allocations f' = []"
    using d(2) stat(1) by (simp add: al)
  show "status f' = CREATED \<or> status f' = APPROVED \<or> status f' = ALLOCATED \<Longrightarrow>
          picking_tasks f' = []"
    using d(3) stat(2) empty by blast
  show "\<And>a. status f' \<noteq> CANCELLED \<Longrightarrow> a \<in> set (allocations f') \<Longrightarrow> al_status a = ACTIVE"
    using d(4) stat(3) by (simp add: al)
  show "0 \<le> active_quantity f' i"
    using d(5) by (simp add: active_quantity_cong [OF al])
  show "\<And>ps p. ps \<in> set (map pt_items (picking_tasks f')) \<Longrightarrow> p \<in> set ps \<Longrightarrow>
           picked_value p \<le> pi_expected p"
    using d(6) unfolding pk by blast
  show "expected_quantity f' i \<le> allocated_quantity f' i"
    using d(7) by (simp add: expected_quantity_cong [OF pk] allocated_quantity_cong [OF al])
  show "i < length (order_items f') \<Longrightarrow> active_quantity f' i \<le> oi_quantity (order_items f' ! i)"
    using d(8) by (simp add: its active_quantity_cong [OF al])
  show "packed_quantity f' i \<le> picked_quantity f' i"
    using d(9) by (simp add: pa picked_quantity_cong [OF pk])
qed

subsection \<open>Operations that leave the quantities alone\<close>

lemma advance_result:
  "advance t a f = Inr f' \<Longrightarrow>
     can_transition (status f) t \<and> f' = audit ''order'' a [] (f\<lparr>status := t\<rparr>)"
  by (auto simp: advance_def validate_transition_def split: if_splits)

lemma advance_consistent:
  assumes "consistent f" "advance t a f = Inr f'"
  shows "consistent f'"
proof -
  from advance_result [OF assms(2)]
  have t: "can_transition (status f) t" and f': "f' = audit ''order'' a [] (f\<lparr>status := t\<rparr>)"
    by simp_all
  show ?thesis
    by (rule consistent_frame [OF assms(1)]) (simp_all add: f' t packed_quantity_def)
qed

lemma approve_consistent: "consistent f \<Longrightarrow> approve f = Inr f' \<Longrightarrow> consistent f'"
  unfolding approve_def by (rule advance_consistent)

lemma assign_picker_consistent:
  assumes "consistent f" "assign_picker t p f = Inr f'"
  shows "consistent f'"
proof -
  from assms(2) have t: "t < length (picking_tasks f)"
    and f': "f' = audit ''picking_task'' ''assign_picker'' p
             (f\<lparr>picking_tasks := (picking_tasks f)
                  [t := (picking_tasks f ! t)\<lparr>pt_picker := Some p, pt_status := IN_PROGRESS\<rparr>]\<rparr>)"
    by (auto simp: assign_picker_def split: if_splits)
  show ?thesis
    by (rule consistent_frame [OF assms(1)])
      (simp_all add: f' t packed_quantity_def map_update_same)
qed

lemma complete_picking_consistent:
  assumes "consistent f" "complete_picking t f = Inr f'"
  shows "consistent f'"
proof -
  from assms(2) have t: "t < length (picking_tasks f)"
    and f': "f' = audit ''picking_task'' ''complete'' []
             (f\<lparr>picking_tasks := (picking_tasks f)
                  [t := (picking_tasks f ! t)\<lparr>pt_status := COMPLETED\<rparr>]\<rparr>)"
    by (auto simp: complete_picking_def split: if_splits)
  show ?thesis
    by (rule consistent_frame [OF assms(1)])
      (simp_all add: f' t packed_quantity_def map_update_same)
qed

lemma create_packing_consistent:
  assumes "consistent f" "create_packing f = Inr f'"
  shows "consistent f'"
proof -
  let ?f1 = "f\<lparr>packing_tasks := packing_tasks f @ [\<lparr>pa_status = PENDING, pa_packages = []\<rparr>]\<rparr>"
  from assms(2) have adv: "advance PACKING ''create_packing'' ?f1 = Inr f'"
    by (auto simp: create_packing_def split: sum.splits)
  have "consistent ?f1"
    by (rule consistent_frame [OF assms(1)])
      (simp_all add: packed_quantity_def task_packed_def)
  from advance_consistent [OF this adv] show ?thesis .
qed

lemma create_package_consistent:
  assumes "consistent f" "create_package t spec f = Inr f'"
  shows "consistent f'"
proof -
  from assms(2) have t: "t < length (packing_tasks f)"
    and f': "f' = audit ''package'' ''create'' []
             (f\<lparr>packing_tasks := (packing_tasks f)
                  [t := (packing_tasks f ! t)
                     \<lparr>pa_packages := pa_packages (packing_tasks f ! t) @
                        [\<lparr>pkg_length = ps_length spec, pkg_width = ps_width spec,
                          pkg_height = ps_height spec, pkg_empty_weight = ps_empty_weight spec,
                          pkg_max_weight = ps_max_weight spec, pkg_status = OPEN,
                          pkg_items = []\<rparr>]\<rparr>]\<rparr>)"
    by (auto simp: create_package_def split: if_splits)
  show ?thesis
    by (rule consistent_frame [OF assms(1)])
      (simp_all add: f' t packed_quantity_def map_update_same task_packed_def package_packed_def)
qed

lemma finalize_package_consistent:
  assumes "consistent f" "finalize_package t p f = Inr f'"
  shows "consistent f'"
proof -
  from assms(2) have t: "t < length (packing_tasks f)"
    and p: "p < length (pa_packages (packing_tasks f ! t))"
    and f': "f' = audit ''package'' ''finalize'' []
             (f\<lparr>packing_tasks := (packing_tasks f)
                  [t := (packing_tasks f ! t)
                     \<lparr>pa_packages := (pa_packages (packing_tasks f ! t))
                        [p := (pa_packages (packing_tasks f ! t) ! p)
                           \<lparr>pkg_status := FINALIZED\<rparr>]\<rparr>]\<rparr>)"
    by (auto simp: finalize_package_def split: if_splits)
  show ?thesis
    by (rule consistent_frame [OF assms(1)])
      (simp_all add: f' t p packed_quantity_def map_update_same task_packed_def package_packed_def)
qed

lemma complete_packing_consistent:
  assumes "consistent f" "complete_packing t f = Inr f'"
  shows "consistent f'"
proof -
  from assms(2) have t: "t < length (packing_tasks f)"
    and f': "f' = audit ''packing_task'' ''complete'' []
             (f\<lparr>packing_tasks := (packing_tasks f)
                  [t := (packing_tasks f ! t)\<lparr>pa_status := COMPLETED\<rparr>]\<rparr>)"
    by (auto simp: complete_packing_def split: if_splits)
  show ?thesis
    by (rule consistent_frame [OF assms(1)])
      (simp_all add: f' t packed_quantity_def map_update_same task_packed_def)
qed

lemma create_shipment_consistent:
  assumes "consistent f" "create_shipment carrier ship_from ship_to f = Inr f'"
  shows "consistent f'"
proof -
  from assms(2) obtain f1 where f1: "shipping_create_shipment carrier ship_from ship_to (package_refs f) f = Inr f1"
    and adv: "advance SHIPPED ''create_shipment'' f1 = Inr f'"
    by (auto simp: create_shipment_def split: sum.splits)
  from f1 have "f1 = f\<lparr>shipments := shipments f @
             [\<lparr>sh_carrier = carrier, sh_tracking_number = None, sh_ship_from = ship_from,
               sh_ship_to = ship_to, sh_status = SHIPMENT_CREATED, sh_items = package_refs f\<rparr>]\<rparr>"
    by (auto simp: shipping_create_shipment_def split: if_splits)
  then have "consistent f1"
    by (intro consistent_frame [OF assms(1)]) (simp_all add: packed_quantity_def)
  from advance_consistent [OF this adv] show ?thesis .
qed

lemma assign_tracking_consistent:
  assumes "consistent f" "assign_tracking s n f = Inr f'"
  shows "consistent f'"
proof -
  from assms(2) have f': "f' = audit ''shipment'' ''assign_tracking'' n
             (f\<lparr>shipments := (shipments f)
                  [s := (shipments f ! s)
                     \<lparr>sh_tracking_number := Some n, sh_status := LABEL_GENERATED\<rparr>]\<rparr>)"
    by (auto simp: assign_tracking_def split: if_splits)
  show ?thesis
    by (rule consistent_frame [OF assms(1)]) (simp_all add: f' packed_quantity_def)
qed

lemma update_status_consistent:
  assumes "consistent f" "update_status s new notes f = Inr f'"
  shows "consistent f'"
proof -
  from assms(2) obtain f1
    where f1: "(if new = SHIPMENT_DELIVERED then advance DELIVERED ''deliver'' f else Inr f) = Inr f1"
      and f': "f' = audit ''shipment'' ''update_status'' notes
               (f1\<lparr>shipments := (shipments f1) [s := (shipments f1 ! s)\<lparr>sh_status := new\<rparr>]\<rparr>)"
    by (auto simp: update_status_def split: if_splits sum.splits)
  from f1 assms(1) have "consistent f1"
    by (auto split: if_splits intro: advance_consistent)
  then show ?thesis
    by (rule consistent_frame) (simp_all add: f' packed_quantity_def)
qed

subsection \<open>Recording picked quantities\<close>

lemma apply_update_props:
  "apply_update u ps = Inr ps' \<Longrightarrow>
     (\<forall>j. sum_list (map pi_expected (filter (\<lambda>p. pi_item p = j) ps'))
           = sum_list (map pi_expected (filter (\<lambda>p. pi_item p = j) ps)))
     \<and> (\<forall>j. sum_list (map picked_value (filter (\<lambda>p. pi_item p = j) ps))
           \<le> sum_list (map picked_value (filter (\<lambda>p. pi_item p = j) ps')))
     \<and> ((\<forall>p \<in> set ps. picked_value p \<le> pi_expected p) \<longrightarrow>
           (\<forall>p \<in> set ps'. picked_value p \<le> pi_expected p))"
proof (induction u ps arbitrary: ps' rule: apply_update.induct)
  case (1 i q)
  then show ?case by simp
next
  case (2 i q p ps)
  show ?case
  proof (cases "pi_item p = i")
    case True
    with "2.prems" have ok: "0 \<le> q" "picked_value p + q \<le> pi_expected p"
      and ps': "ps' = p\<lparr>pi_picked := Some (picked_value p + q)\<rparr> # ps"
      by (auto split: if_splits)
    show ?thesis using ok by (simp add: ps' picked_value_def)
  next
    case False
    with "2.prems" obtain ps1 where rest: "apply_update (i, q) ps = Inr ps1" and ps': "ps' = p # ps1"
      by (auto split: sum.splits)
    from "2.IH" [OF False rest] show ?thesis by (simp add: ps')
  qed
qed

lemma apply_updates_props:
  "apply_updates us ps = Inr ps' \<Longrightarrow>
     (\<forall>j. sum_list (map pi_expected (filter (\<lambda>p. pi_item p = j) ps'))
           = sum_list (map pi_expected (filter (\<lambda>p. pi_item p = j) ps)))
     \<and> (\<forall>j. sum_list (map picked_value (filter (\<lambda>p. pi_item p = j) ps))
           \<le> sum_list (map picked_value (filter (\<lambda>p. pi_item p = j) ps')))
     \<and> ((\<forall>p \<in> set ps. picked_value p \<le> pi_expected p) \<longrightarrow>
           (\<forall>p \<in> set ps'. picked_value p \<le> pi_expected p))"
proof (induction us arbitrary: ps)
  case Nil
  then show ?case by simp
next
  case (Cons u us)
  then obtain ps1 where s: "apply_update u ps = Inr ps1" "apply_updates us ps1 = Inr ps'"
    by (auto split: sum.splits)
  from Cons.IH [OF s(2)] apply_update_props [OF s(1)] show ?case
    by (auto intro: order_trans)
qed

lemma update_picked_consistent:
  assumes c: "consistent f" and u: "update_picked t us f = Inr f'"
  shows "consistent f'"
proof -
  note d = consistentD [OF c]
  let ?xs = "picking_tasks f"
  from u obtain ps where t: "t < length ?xs"
    and ps: "apply_updates us (pt_items (?xs ! t)) = Inr ps"
    and f': "f' = audit ''picking_task'' ''update_picked'' []
               (f\<lparr>picking_tasks := ?xs [t := (?xs ! t)\<lparr>pt_items := ps\<rparr>]\<rparr>)"
    by (auto simp: update_picked_def split: if_splits sum.splits)
  let ?y = "(?xs ! t)\<lparr>pt_items := ps\<rparr>"
  from apply_updates_props [OF ps]
  have props: "\<And>j. sum_list (map pi_expected (filter (\<lambda>p. pi_item p = j) ps))
           = sum_list (map pi_expected (filter (\<lambda>p. pi_item p = j) (pt_items (?xs ! t))))"
    "\<And>j. sum_list (map picked_value (filter (\<lambda>p. pi_item p = j) (pt_items (?xs ! t))))
           \<le> sum_list (map picked_value (filter (\<lambda>p. pi_item p = j) ps))"
    "(\<forall>p \<in> set (pt_items (?xs ! t)). picked_value p \<le> pi_expected p) \<Longrightarrow>
           (\<forall>p \<in> set ps. picked_value p \<le> pi_expected p)"
    by blast+
  have tasks: "picking_tasks f' = ?xs[t := ?y]" by (simp add: f')
  have nonempty: "?xs \<noteq> []" using t by auto
  have old: "\<forall>p \<in> set (pt_items (?xs ! t)). picked_value p \<le> pi_expected p"
    using d(6) [of "pt_items (?xs ! t)"] t by simp
  have exp: "expected_quantity f' i = expected_quantity f i" for i
    unfolding expected_quantity_def tasks
    using props(1) [of i] t by (simp add: map_update_same task_expected_def)
  have pick: "picked_quantity f i \<le> picked_quantity f' i" for i
    unfolding picked_quantity_def tasks
    using props(2) [of i] t by (simp add: sum_list_map_update task_picked_def)
  show ?thesis
  proof (rule consistentI)
    fix i
    show "\<And>it. it \<in> set (order_items f') \<Longrightarrow> 0 < oi_quantity it"
      using d(1) by (simp add: f')
    show "status f' = CREATED \<or> status f' = APPROVED \<Longrightarrow> allocations f' = []"
      using d(2) by (simp add: f')
    show "status f' = CREATED \<or> status f' = APPROVED \<or> status f' = ALLOCATED \<Longrightarrow>
          picking_tasks f' = []"
      using d(3) nonempty by (simp add: f')
    show "\<And>a. status f' \<noteq> CANCELLED \<Longrightarrow> a \<in> set (allocations f') \<Longrightarrow> al_status a = ACTIVE"
      using d(4) by (simp add: f')
    show "0 \<le> active_quantity f' i"
      using d(5) [of i] by (simp add: f' active_quantity_def)
    show "\<And>qs p. qs \<in> set (map pt_items (picking_tasks f')) \<Longrightarrow> p \<in> set qs \<Longrightarrow>
           picked_value p \<le> pi_expected p"
    proof -
      fix qs p assume qs: "qs \<in> set (map pt_items (picking_tasks f'))" and p: "p \<in> set qs"
      from qs have "qs \<in> pt_items ` set (?xs[t := ?y])" by (simp add: tasks)
      then have "qs = ps \<or> qs \<in> set (map pt_items ?xs)"
        using set_update_subset_insert [of ?xs t ?y] by auto
      then show "picked_value p \<le> pi_expected p"
        using props(3) [OF old] d(6) p by blast
    qed
    show "expected_quantity f' i \<le> allocated_quantity f' i"
      using d(7) [of i] by (simp add: exp) (simp add: f' allocated_quantity_def)
    show "i < length (order_items f') \<Longrightarrow> active_quantity f' i \<le> oi_quantity (order_items f' ! i)"
      using d(8) [of i] by (simp add: f' active_quantity_def)
    show "packed_quantity f' i \<le> picked_quantity f' i"
    proof -
      have "packed_quantity f' i = packed_quantity f i" by (simp add: f' packed_quantity_def)
      with d(9) [of i] pick [of i] show ?thesis by simp
    qed
  qed
qed

subsection \<open>Packing\<close>

lemma add_item_consistent:
  assumes c: "consistent f" and a: "add_item t p item q f = Inr f'"
  shows "consistent f'"
proof -
  note d = consistentD [OF c]
  let ?ts = "packing_tasks f"
  let ?ps = "pa_packages (?ts ! t)"
  let ?pkg = "(?ps ! p)\<lparr>pkg_items := pkg_items (?ps ! p) @ [\<lparr>pki_item = item, pki_quantity = q\<rparr>]\<rparr>"
  let ?task = "(?ts ! t)\<lparr>pa_packages := ?ps[p := ?pkg]\<rparr>"
  from a have t: "t < length ?ts" and p: "p < length ?ps"
    and room: "q \<le> picked_quantity f item - packed_quantity f item"
    and f': "f' = audit ''package'' ''add_item'' [] (f\<lparr>packing_tasks := ?ts[t := ?task]\<rparr>)"
    by (auto simp: add_item_def split: if_splits)
  have pkg: "package_packed i ?pkg = package_packed i (?ps ! p) + (if i = item then q else 0)" for i
    by (simp add: package_packed_def)
  have task: "task_packed i ?task = task_packed i (?ts ! t) + (if i = item then q else 0)" for i
    unfolding task_packed_def using p by (simp add: sum_list_map_update pkg)
  have packed: "packed_quantity f' i = packed_quantity f i + (if i = item then q else 0)" for i
    unfolding packed_quantity_def f' using t by (simp add: sum_list_map_update task)
  have fit: "packed_quantity f' i \<le> picked_quantity f i" for i
    using d(9) [of i] room by (simp add: packed)
  show ?thesis
  proof (rule consistentI)
    fix i
    show "\<And>it. it \<in> set (order_items f') \<Longrightarrow> 0 < oi_quantity it"
      using d(1) by (simp add: f')
    show "status f' = CREATED \<or> status f' = APPROVED \<Longrightarrow> allocations f' = []"
      using d(2) by (simp add: f')
    show "status f' = CREATED \<or> status f' = APPROVED \<or> status f' = ALLOCATED \<Longrightarrow>
          picking_tasks f' = []"
      using d(3) by (simp add: f')
    show "\<And>a. status f' \<noteq> CANCELLED \<Longrightarrow> a \<in> set (allocations f') \<Longrightarrow> al_status a = ACTIVE"
      using d(4) by (simp add: f')
    show "0 \<le> active_quantity f' i"
      using d(5) [of i] by (simp add: f' active_quantity_def)
    show "\<And>qs x. qs \<in> set (map pt_items (picking_tasks f')) \<Longrightarrow> x \<in> set qs \<Longrightarrow>
           picked_value x \<le> pi_expected x"
      using d(6) by (simp add: f')
    show "expected_quantity f' i \<le> allocated_quantity f' i"
      using d(7) [of i] by (simp add: f' expected_quantity_def allocated_quantity_def)
    show "i < length (order_items f') \<Longrightarrow> active_quantity f' i \<le> oi_quantity (order_items f' ! i)"
      using d(8) [of i] by (simp add: f' active_quantity_def)
    show "packed_quantity f' i \<le> picked_quantity f' i"
      using fit [of i] by (simp add: f' picked_quantity_def)
  qed
qed

subsection \<open>Cancellation\<close>

lemma allocated_quantity_released:
  "sum_list (map al_quantity (filter (\<lambda>a. al_item a = i) (map mark_released xs)))
     = sum_list (map al_quantity (filter (\<lambda>a. al_item a = i) xs))"
  by (induction xs) (simp_all add: mark_released_def)

lemma active_quantity_released_zero:
  "sum_list (map al_quantity
     (filter (\<lambda>a. al_item a = i \<and> al_status a = ACTIVE) (map mark_released xs))) = 0"
  by (induction xs) (simp_all add: mark_released_def)

lemma cancel_task_items [simp]:
  "pt_items (cancel_picking_task t) = pt_items t"
  "pa_packages (cancel_packing_task u) = pa_packages u"
  by (simp_all add: cancel_picking_task_def cancel_packing_task_def)

lemma cancel_consistent:
  assumes c: "consistent f" and k: "cancel ad iv reason f = (Inr f', iv')"
  shows "consistent f'"
proof (cases "status f = CANCELLED")
  case True
  with k c show ?thesis by (simp add: cancel_def)
next
  case False
  note d = consistentD [OF c]
  obtain f1 iv1 where r: "release_order ad iv f = (f1, iv1)" by (cases "release_order ad iv f")
  from release_order_allocations [of ad iv f] release_order_frame [of ad iv f] r
  have f1: "allocations f1 = map mark_released (allocations f)" "order_items f1 = order_items f"
    "picking_tasks f1 = picking_tasks f" "packing_tasks f1 = packing_tasks f"
    by simp_all
  from k False r have f': "f' = audit ''order'' ''cancel'' reason
                          (f1\<lparr>status := CANCELLED,
                              picking_tasks := map cancel_picking_task (picking_tasks f1),
                              packing_tasks := map cancel_packing_task (packing_tasks f1)\<rparr>)"
    by (auto simp: cancel_def split: sum.splits)
  have sel: "status f' = CANCELLED" "order_items f' = order_items f"
    "allocations f' = map mark_released (allocations f)"
    "map pt_items (picking_tasks f') = map pt_items (picking_tasks f)"
    "packing_tasks f' = map cancel_packing_task (packing_tasks f)"
    by (simp_all add: f' f1 o_def)
  have packed: "packed_quantity f' i = packed_quantity f i" for i
    by (simp add: packed_quantity_def sel task_packed_def [abs_def] o_def)
  show ?thesis
  proof (rule consistentI)
    fix i
    show "\<And>it. it \<in> set (order_items f') \<Longrightarrow> 0 < oi_quantity it"
      using d(1) by (simp add: sel)
    show "status f' = CREATED \<or> status f' = APPROVED \<Longrightarrow> allocations f' = []"
      by (simp add: sel)
    show "status f' = CREATED \<or> status f' = APPROVED \<or> status f' = ALLOCATED \<Longrightarrow>
          picking_tasks f' = []"
      by (simp add: sel)
    show "\<And>a. status f' \<noteq> CANCELLED \<Longrightarrow> a \<in> set (allocations f') \<Longrightarrow> al_status a = ACTIVE"
      by (simp add: sel)
    show "0 \<le> active_quantity f' i"
      by (simp add: active_quantity_def sel active_quantity_released_zero)
    show "\<And>qs x. qs \<in> set (map pt_items (picking_tasks f')) \<Longrightarrow> x \<in> set qs \<Longrightarrow>
           picked_value x \<le> pi_expected x"
      using d(6) unfolding sel by blast
    show "expected_quantity f' i \<le> allocated_quantity f' i"
      using d(7) [of i]
      by (simp add: expected_quantity_cong [OF sel(4)])
        (simp add: allocated_quantity_def sel allocated_quantity_released)
    show "i < length (order_items f') \<Longrightarrow> active_quantity f' i \<le> oi_quantity (order_items f' ! i)"
      using d(1) [of "order_items f ! i"]
      by (simp add: active_quantity_def sel active_quantity_released_zero order.strict_implies_order)
    show "packed_quantity f' i \<le> picked_quantity f' i"
      using d(9) [of i] by (simp add: packed picked_quantity_cong [OF sel(4)])
  qed
qed

subsection \<open>Allocation\<close>

lemma allocate_consistent:
  assumes c: "consistent f" and k: "allocate ad iv f = (Inr f', iv')"
  shows "consistent f'"
proof -
  note d = consistentD [OF c]
  from k have ct: "can_transition (status f) ALLOCATED"
    by (auto simp: allocate_def validate_transition_def split: if_splits)
  from can_transition_cases [OF ct] have st: "status f = APPROVED" by simp
  from k ct obtain f1 where ao: "allocate_order ad iv f = (Inr f1, iv')"
    and adv: "advance ALLOCATED ''allocate'' f1 = Inr f'"
    by (auto simp: allocate_def validate_transition_def split: prod.splits sum.splits)
  from ao have ns: "\<not> list_ex (short ad iv f) [0..<length (order_items f)]"
    by (auto simp: allocate_order_def shortfalls_empty_iff split: if_splits)
  from ao ns obtain rows where ra: "fst (reserve_all ad iv (order_id f) (reservation_plan ad iv f)) = Some rows"
    by (auto simp: allocate_order_def shortfalls_empty_iff split: prod.splits option.splits)
  note succ = allocate_order_success [OF ns ra]
  from succ(1) ao have f1: "f1 = f\<lparr>allocations := allocations f @ rows\<rparr>" by simp
  from advance_result [OF adv] have f': "f' = audit ''order'' ''allocate'' [] (f1\<lparr>status := ALLOCATED\<rparr>)"
    by simp
  have none: "allocations f = []" "picking_tasks f = []" using d(2,3) st by simp_all
  have sel: "status f' = ALLOCATED" "order_items f' = order_items f" "allocations f' = rows"
    "picking_tasks f' = []" "packing_tasks f' = packing_tasks f"
    by (simp_all add: f' f1 none)
  have active_rows: "filter (\<lambda>a. al_item a = i \<and> al_status a = ACTIVE) rows
      = filter (\<lambda>a. al_item a = i) rows" for i
    using succ(3) by (auto intro: filter_cong)
  have full: "sum_list (map al_quantity (filter (\<lambda>a. al_item a = i) rows))
      = (if i < length (order_items f) then oi_quantity (order_items f ! i) else 0)" for i
  proof (cases "i < length (order_items f)")
    case True
    then have "0 \<le> oi_quantity (order_items f ! i)"
      using d(1) [of "order_items f ! i"] by (simp add: order.strict_implies_order)
    with succ(4) True show ?thesis by simp
  next
    case False
    with succ(5) show ?thesis by simp
  qed
  have nonneg: "0 \<le> sum_list (map al_quantity (filter (\<lambda>a. al_item a = i) rows))" for i
    using d(1) [of "order_items f ! i"] by (simp add: full order.strict_implies_order)
  show ?thesis
  proof (rule consistentI)
    fix i
    show "\<And>it. it \<in> set (order_items f') \<Longrightarrow> 0 < oi_quantity it"
      using d(1) by (simp add: sel)
    show "status f' = CREATED \<or> status f' = APPROVED \<Longrightarrow> allocations f' = []"
      by (simp add: sel)
    show "status f' = CREATED \<or> status f' = APPROVED \<or> status f' = ALLOCATED \<Longrightarrow>
          picking_tasks f' = []"
      by (simp add: sel)
    show "\<And>a. status f' \<noteq> CANCELLED \<Longrightarrow> a \<in> set (allocations f') \<Longrightarrow> al_status a = ACTIVE"
      using succ(3) by (simp add: sel)
    show "0 \<le> active_quantity f' i"
      using nonneg [of i] by (simp add: active_quantity_def sel active_rows)
    show "\<And>qs x. qs \<in> set (map pt_items (picking_tasks f')) \<Longrightarrow> x \<in> set qs \<Longrightarrow>
           picked_value x \<le> pi_expected x"
      by (simp add: sel)
    show "expected_quantity f' i \<le> allocated_quantity f' i"
      using nonneg [of i] by (simp add: expected_quantity_def allocated_quantity_def sel)
    show "i < length (order_items f') \<Longrightarrow> active_quantity f' i \<le> oi_quantity (order_items f' ! i)"
      by (simp add: active_quantity_def sel active_rows full)
    show "packed_quantity f' i \<le> picked_quantity f' i"
      using d(9) [of i] none by (simp add: packed_quantity_def picked_quantity_def sel)
  qed
qed

subsection \<open>Generating the picking task\<close>

lemma filter_eq_upt: "filter (\<lambda>j. j = i \<and> P j) [0..<n] = (if i < n \<and> P i then [i] else [])"
  by (induction n) auto

lemma generated_items_expected:
  "sum_list (map pi_expected (filter (\<lambda>p. pi_item p = i)
      (map (\<lambda>j. \<lparr>pi_item = j, pi_expected = e j, pi_picked = None\<rparr>) (filter P [0..<n]))))
     = (if i < n \<and> P i then e i else 0)"
proof -
  have "filter (\<lambda>p. pi_item p = i)
      (map (\<lambda>j. \<lparr>pi_item = j, pi_expected = e j, pi_picked = None\<rparr>) (filter P [0..<n]))
      = map (\<lambda>j. \<lparr>pi_item = j, pi_expected = e j, pi_picked = None\<rparr>)
          (filter (\<lambda>j. j = i \<and> P j) [0..<n])"
    by (simp add: filter_map o_def conj_commute)
  then show ?thesis by (simp add: filter_eq_upt)
qed

lemma generated_items_picked:
  "sum_list (map picked_value (filter Q
      (map (\<lambda>j. \<lparr>pi_item = j, pi_expected = e j, pi_picked = None\<rparr>) js))) = 0"
  by (induction js) (simp_all add: picked_value_def)

lemma active_is_allocated:
  assumes "\<forall>a \<in> set (allocations f). al_status a = ACTIVE"
  shows "active_quantity f i = allocated_quantity f i"
proof -
  have "filter (\<lambda>a. al_item a = i \<and> al_status a = ACTIVE) (allocations f)
      = filter (\<lambda>a. al_item a = i) (allocations f)"
    using assms by (auto intro: filter_cong)
  then show ?thesis by (simp add: active_quantity_def allocated_quantity_def)
qed

lemma generate_picking_consistent:
  assumes c: "consistent f" and g: "generate_picking f = Inr f'"
  shows "consistent f'"
proof -
  note d = consistentD [OF c]
  from g have ct: "can_transition (status f) PICKING"
    by (auto simp: generate_picking_def validate_transition_def split: if_splits)
  from can_transition_cases [OF ct] have st: "status f = ALLOCATED" by simp
  let ?items = "map (\<lambda>i. \<lparr>pi_item = i, pi_expected = active_quantity f i, pi_picked = None\<rparr>)
                   (filter (is_allocated f) [0..<length (order_items f)])"
  from g ct obtain f1 where gt: "generate_tasks f = Inr f1"
    and adv: "advance PICKING ''generate_picking'' f1 = Inr f'"
    by (auto simp: generate_picking_def validate_transition_def split: sum.splits)
  have none: "picking_tasks f = []" using d(3) st by simp
  from gt have f1: "f1 = f\<lparr>picking_tasks := picking_tasks f @
             [\<lparr>pt_picker = None, pt_status = PENDING, pt_items = ?items\<rparr>]\<rparr>"
    by (auto simp: generate_tasks_def split: if_splits)
  from advance_result [OF adv]
  have f': "f' = audit ''order'' ''generate_picking'' [] (f1\<lparr>status := PICKING\<rparr>)" by simp
  have sel: "status f' = PICKING" "order_items f' = order_items f" "allocations f' = allocations f"
    "picking_tasks f' = [\<lparr>pt_picker = None, pt_status = PENDING, pt_items = ?items\<rparr>]"
    "packing_tasks f' = packing_tasks f"
    by (simp_all add: f' f1 none)
  have all_active: "\<forall>a \<in> set (allocations f). al_status a = ACTIVE"
    using d(4) st by simp
  have expected: "expected_quantity f' i
      = (if i < length (order_items f) \<and> is_allocated f i then active_quantity f i else 0)" for i
    by (simp add: expected_quantity_def sel task_expected_def generated_items_expected)
  have picked: "picked_quantity f' i = 0" "picked_quantity f i = 0" for i
    by (simp_all add: picked_quantity_def sel none task_picked_def generated_items_picked)
  show ?thesis
  proof (rule consistentI)
    fix i
    show "\<And>it. it \<in> set (order_items f') \<Longrightarrow> 0 < oi_quantity it"
      using d(1) by (simp add: sel)
    show "status f' = CREATED \<or> status f' = APPROVED \<Longrightarrow> allocations f' = []"
      by (simp add: sel)
    show "status f' = CREATED \<or> status f' = APPROVED \<or> status f' = ALLOCATED \<Longrightarrow>
          picking_tasks f' = []"
      by (simp add: sel)
    show "\<And>a. status f' \<noteq> CANCELLED \<Longrightarrow> a \<in> set (allocations f') \<Longrightarrow> al_status a = ACTIVE"
      using all_active by (simp add: sel)
    show "0 \<le> active_quantity f' i"
      using d(5) [of i] by (simp add: active_quantity_cong [OF sel(3)])
    show "\<And>qs x. qs \<in> set (map pt_items (picking_tasks f')) \<Longrightarrow> x \<in> set qs \<Longrightarrow>
           picked_value x \<le> pi_expected x"
      using d(5) by (auto simp: sel picked_value_def)
    show "expected_quantity f' i \<le> allocated_quantity f' i"
      using d(5) [of i] active_is_allocated [OF all_active, of i]
      by (simp add: expected allocated_quantity_cong [OF sel(3)])
    show "i < length (order_items f') \<Longrightarrow> active_quantity f' i \<le> oi_quantity (order_items f' ! i)"
      using d(8) [of i] by (simp add: sel active_quantity_cong [OF sel(3)])
    show "packed_quantity f' i \<le> picked_quantity f' i"
      using d(9) [of i] by (simp add: picked packed_quantity_cong [OF sel(5)])
  qed
qed

subsection \<open>Every reachable aggregate is consistent\<close>

lemma make_items_positive:
  "make_items xs = Inr its \<Longrightarrow> \<forall>it \<in> set its. 0 < oi_quantity it"
proof (induction xs arbitrary: its)
  case Nil
  then show ?case by simp
next
  case (Cons x xs)
  then obtain it its1 where x: "make_item x = Inr it" and r: "make_items xs = Inr its1"
    and its: "its = it # its1"
    by (auto split: sum.splits)
  from x have "0 < oi_quantity it"
    by (auto simp: make_item_def split: option.splits if_splits)
  with Cons.IH [OF r] show ?case by (simp add: its)
qed

lemma new_order_consistent:
  "\<forall>it \<in> set its. 0 < oi_quantity it \<Longrightarrow> consistent (new_order oid wh prio its)"
  by (rule consistentI)
    (auto simp: new_order_def active_quantity_def expected_quantity_def
      allocated_quantity_def packed_quantity_def picked_quantity_def
      intro: order.strict_implies_order)

lemma perform_consistent:
  assumes "consistent f" "perform ad iv c f = (Inr f', iv')"
  shows "consistent f'"
proof (cases c)
  case Approve
  with assms show ?thesis by (auto intro: approve_consistent)
next
  case Allocate
  with assms show ?thesis by (auto intro: allocate_consistent)
next
  case GeneratePicking
  with assms show ?thesis by (auto intro: generate_picking_consistent)
next
  case CreatePacking
  with assms show ?thesis by (auto intro: create_packing_consistent)
next
  case (CreateShipment x1 x2 x3)
  with assms show ?thesis by (auto intro: create_shipment_consistent)
next
  case (Cancel x)
  with assms show ?thesis by (auto intro: cancel_consistent)
next
  case (AssignPicker x1 x2)
  with assms show ?thesis by (auto intro: assign_picker_consistent)
next
  case (UpdatePicked x1 x2)
  with assms show ?thesis by (auto intro: update_picked_consistent)
next
  case (CompletePicking x)
  with assms show ?thesis by (auto intro: complete_picking_consistent)
next
  case (CreatePackage x1 x2)
  with assms show ?thesis by (auto intro: create_package_consistent)
next
  case (AddItem x1 x2 x3 x4)
  with assms show ?thesis by (auto intro: add_item_consistent)
next
  case (FinalizePackage x1 x2)
  with assms show ?thesis by (auto intro: finalize_package_consistent)
next
  case (CompletePacking x)
  with assms show ?thesis by (auto intro: complete_packing_consistent)
next
  case (AssignTracking x1 x2)
  with assms show ?thesis by (auto intro: assign_tracking_consistent)
next
  case (UpdateStatus x1 x2 x3)
  with assms show ?thesis by (auto intro: update_status_consistent)
next
  case (GenerateManifest x)
  with assms show ?thesis by (auto split: sum.splits)
qed

lemma create_order_orders:
  "orders (snd (create_order wh prio inputs st)) oid = Some f \<Longrightarrow>
     orders st oid = Some f
     \<or> (\<exists>its. make_items inputs = Inr its \<and> f = new_order (next_order_id st) wh prio its)"
  by (auto simp: create_order_def split: sum.splits if_splits)

lemma call_orders:
  "orders (snd (call ad oid' c st)) oid = Some f \<Longrightarrow>
     orders st oid = Some f
     \<or> (\<exists>f0 iv'. orders st oid' = Some f0 \<and> perform ad (inventory st) c f0 = (Inr f, iv'))"
  by (auto simp: call_def split: option.splits prod.splits sum.splits if_splits)

lemma reachable_consistent:
  "reachable ad st \<Longrightarrow> orders st oid = Some f \<Longrightarrow> consistent f"
proof (induction arbitrary: oid f rule: reachable.induct)
  case (initial iv)
  then show ?case by simp
next
  case (created st wh prio inputs)
  from create_order_orders [OF created.prems] show ?case
  proof
    assume "orders st oid = Some f"
    then show ?thesis by (rule created.IH)
  next
    assume "\<exists>its. make_items inputs = Inr its \<and> f = new_order (next_order_id st) wh prio its"
    then obtain its where its: "make_items inputs = Inr its"
      and f: "f = new_order (next_order_id st) wh prio its" by blast
    from make_items_positive [OF its] show ?thesis
      unfolding f by (rule new_order_consistent)
  qed
next
  case (called st oid' c)
  from call_orders [OF called.prems] show ?case
  proof
    assume "orders st oid = Some f"
    then show ?thesis by (rule called.IH)
  next
    assume "\<exists>f0 iv'. orders st oid' = Some f0 \<and> perform ad (inventory st) c f0 = (Inr f, iv')"
    then obtain f0 iv' where f0: "orders st oid' = Some f0"
      and p: "perform ad (inventory st) c f0 = (Inr f, iv')" by blast
    from called.IH [OF f0] p show ?thesis by (rule perform_consistent)
  qed
next
  case (inventory_changed st iv)
  then show ?case by simp
qed

lemma picked_le_expected:
  assumes "consistent f"
  shows "picked_quantity f i \<le> expected_quantity f i"
proof -
  have item: "sum_list (map picked_value (filter (\<lambda>p. pi_item p = i) ps))
        \<le> sum_list (map pi_expected (filter (\<lambda>p. pi_item p = i) ps))"
    if "ps \<in> set (map pt_items (picking_tasks f))" for ps
    using consistentD(6) [OF assms that] by (intro sum_list_mono) simp
  show ?thesis
    unfolding picked_quantity_items expected_quantity_items
    by (rule sum_list_mono) (rule item)
qed

lemma consistent_reconciled:
  assumes "consistent f" "i < length (order_items f)"
  shows "reconciled f i"
    and "status f \<noteq> CANCELLED \<Longrightarrow> picked_quantity f i \<le> active_quantity f i"
proof -
  note d = consistentD [OF assms(1)]
  have pa: "picked_quantity f i \<le> allocated_quantity f i"
    using picked_le_expected [OF assms(1), of i] d(7) [of i] by simp
  with d(8) [OF assms(2)] d(9) [of i] show "reconciled f i"
    by (simp add: reconciled_def)
  assume "status f \<noteq> CANCELLED"
  with d(4) have "\<forall>a \<in> set (allocations f). al_status a = ACTIVE" by blast
  from active_is_allocated [OF this, of i] pa
  show "picked_quantity f i \<le> active_quantity f i" by simp
qed

text \<open>
  C1. In every store the system can reach, every order satisfies, for each of its items,
  the three inequalities: the quantity on its ACTIVE allocations is at most the ordered
  quantity, the picked quantity is at most the quantity on its allocations, and the
  quantity packed across all packages is at most the picked quantity. Until the order
  is cancelled the picked quantity is also at most the quantity on the ACTIVE
  allocations. Every operation preserves the inequalities: they hold again for every
  order of the store that any call of an operation, \<open>create_order\<close> included, leaves.
\<close>

theorem quantities_reconciled:
  assumes "reachable ad st" "orders st oid = Some f" "i < length (order_items f)"
  shows "reconciled f i
       \<and> (status f \<noteq> CANCELLED \<longrightarrow> picked_quantity f i \<le> active_quantity f i)
       \<and> (\<forall>oid' c f'. orders (snd (call ad oid' c st)) oid = Some f'
              \<and> i < length (order_items f') \<longrightarrow> reconciled f' i)
       \<and> (\<forall>wh prio inputs f'. orders (snd (create_order wh prio inputs st)) oid = Some f'
              \<and> i < length (order_items f') \<longrightarrow> reconciled f' i)"
proof (intro conjI allI impI)
  from reachable_consistent [OF assms(1,2)] have c: "consistent f" .
  from consistent_reconciled [OF c assms(3)]
  show "reconciled f i" and "status f \<noteq> CANCELLED \<Longrightarrow> picked_quantity f i \<le> active_quantity f i"
    by simp_all
next
  fix oid' c f'
  assume a: "orders (snd (call ad oid' c st)) oid = Some f' \<and> i < length (order_items f')"
  have "reachable ad (snd (call ad oid' c st))"
    using assms(1) by (rule reachable.called)
  from reachable_consistent [OF this] a have "consistent f'" by blast
  with a show "reconciled f' i" by (simp add: consistent_reconciled(1))
next
  fix wh prio inputs f'
  assume a: "orders (snd (create_order wh prio inputs st)) oid = Some f'
    \<and> i < length (order_items f')"
  have "reachable ad (snd (create_order wh prio inputs st))"
    using assms(1) by (rule reachable.created)
  from reachable_consistent [OF this] a have "consistent f'" by blast
  with a show "reconciled f' i" by (simp add: consistent_reconciled(1))
qed

lemma scenario_values:
  "map_option (\<lambda>f. (status f, length (order_items f), active_quantity f 0,
       allocated_quantity f 0, picked_quantity f 0, packed_quantity f 0))
     (orders scenario_store 0) = Some (PACKING, 2, 10, 10, 10, 7)"
  by code_simp

lemma reachable_foldl:
  "reachable ad st \<Longrightarrow> reachable ad (foldl (\<lambda>st c. snd (call ad oid c st)) st cs)"
  by (induction cs arbitrary: st) (simp_all add: reachable.called)

lemma scenario_reachable: "reachable scenario_adapter scenario_store"
  unfolding scenario_store_def empty_store_def
  by (intro reachable_foldl reachable.created reachable.initial)

theorem quantities_reconciled_witness:
  "\<exists>f. orders scenario_store 0 = Some f \<and> status f = PACKING
     \<and> active_quantity f 0 = 10 \<and> allocated_quantity f 0 = 10
     \<and> picked_quantity f 0 = 10 \<and> packed_quantity f 0 = 7 \<and> reconciled f 0"
proof -
  from scenario_values obtain f where f: "orders scenario_store 0 = Some f"
    and v: "status f = PACKING" "length (order_items f) = 2" "active_quantity f 0 = 10"
      "allocated_quantity f 0 = 10" "picked_quantity f 0 = 10" "packed_quantity f 0 = 7"
    by auto
  from v(2) have "0 < length (order_items f)" by simp
  from quantities_reconciled [OF scenario_reachable f this] have "reconciled f 0" by blast
  with f v show ?thesis by blast
qed

section \<open>AllocationService.allocate_order, alone and through OrderService.allocate\<close>











end
